theory Spec2Isabelle
  imports Complex_Main "HOL-Library.Word" "HOL-Library.Sublist"
begin

text \<open>
  The trend pipeline of the question bank: \<^verbatim>\<open>app/tendance/page.tsx\<close> filters the raw
  exam records, aggregates them by course and groups them by module and
  sub-discipline; \<^verbatim>\<open>lib/tendance-svg-export.ts\<close> lays the groups of one module out on
  a canvas of 1080 by 1080 and writes them as an SVG document. The first part of this
  theory translates these functions, the second states and proves their properties.
\<close>

section \<open>Strings\<close>

text \<open>
  A JavaScript string is a sequence of UTF-16 code units: \<open>text.length\<close> counts code
  units, \<open>slice\<close> cuts between them, and a regular expression without the \<open>u\<close> flag
  matches them one at a time. A code unit is a 16-bit word. String literals of the
  source that are plain ASCII are written \<open>js ''...''\<close>.
\<close>

type_synonym jschar = "16 word"
type_synonym jsstring = "jschar list"

definition js :: "string \<Rightarrow> jsstring" where
  "js s = map of_char s"

definition AMP :: jschar where "AMP = 0x26"
definition LT :: jschar where "LT = 0x3C"
definition GT :: jschar where "GT = 0x3E"
definition QUOT :: jschar where "QUOT = 0x22"
definition APOS :: jschar where "APOS = 0x27"

text \<open>The horizontal ellipsis U+2026, one code unit.\<close>

definition ELLIPSIS :: jschar where "ELLIPSIS = 0x2026"

section \<open>lib/tendance-svg-export.ts: helpers\<close>

text \<open>
  \<open>text.replace(/c/g, r)\<close> for a single literal character \<open>c\<close> and a replacement \<open>r\<close>
  without \<open>$\<close> patterns: every occurrence of \<open>c\<close> becomes \<open>r\<close>, left to right.
\<close>

fun replace_all :: "jschar \<Rightarrow> jsstring \<Rightarrow> jsstring \<Rightarrow> jsstring" where
  "replace_all ch r [] = []"
| "replace_all ch r (x # xs) = (if x = ch then r else [x]) @ replace_all ch r xs"

text \<open>
  \<^verbatim>\<open>
  function esc(text: string): string {
    return text
      .replace(/&/g, "&amp;")
      .replace(/</g, "&lt;")
      .replace(/>/g, "&gt;")
      .replace(/"/g, "&quot;")
      .replace(/'/g, "&apos;");
  }
  \<close>
\<close>

definition esc :: "jsstring \<Rightarrow> jsstring" where
  "esc text =
     replace_all APOS (js ''&apos;'')
       (replace_all QUOT (js ''&quot;'')
         (replace_all GT (js ''&gt;'')
           (replace_all LT (js ''&lt;'')
             (replace_all AMP (js ''&amp;'') text))))"

text \<open>
  \<open>text.slice(0, end)\<close>, of a string or an array: a negative \<open>end\<close> counts from the
  end and stops at 0.
\<close>

definition slice0 :: "'a list \<Rightarrow> int \<Rightarrow> 'a list" where
  "slice0 text e =
     (if e < 0 then take (nat (int (length text) + e)) text else take (nat e) text)"

text \<open>
  \<^verbatim>\<open>
  function truncateText(text: string, maxChars: number): string {
    if (text.length <= maxChars) return text;
    return text.slice(0, maxChars - 1) + "\<dots>";
  }
  \<close>
  (the appended literal is the single character U+2026).
\<close>

definition truncateText :: "jsstring \<Rightarrow> int \<Rightarrow> jsstring" where
  "truncateText text maxChars =
     (if int (length text) \<le> maxChars then text
      else slice0 text (maxChars - 1) @ [ELLIPSIS])"

section \<open>Reading escaped text back\<close>

text \<open>
  The entity of one character: what a reader of the document has to find in place of
  each reserved character. This is the specification \<open>esc\<close> is compared with.
\<close>

definition esc_char :: "jschar \<Rightarrow> jsstring" where
  "esc_char x =
     (if x = AMP then js ''&amp;''
      else if x = LT then js ''&lt;''
      else if x = GT then js ''&gt;''
      else if x = QUOT then js ''&quot;''
      else if x = APOS then js ''&apos;''
      else [x])"

text \<open>
  An XML reader's view of character data: it rejects a raw \<open><\<close>, \<open>>\<close>, \<open>"\<close> or \<open>'\<close>
  and an ampersand that does not start one of the five predefined entity references,
  and otherwise returns the text with each reference replaced by its character.
  \<open>decode_entity cs\<close> reads the rest of a reference after its ampersand.
\<close>

fun strip_prefix :: "'a list \<Rightarrow> 'a list \<Rightarrow> 'a list option" where
  "strip_prefix [] ys = Some ys"
| "strip_prefix (x # xs) [] = None"
| "strip_prefix (x # xs) (y # ys) = (if x = y then strip_prefix xs ys else None)"

definition entities :: "(jsstring \<times> jschar) list" where
  "entities =
     [(js ''amp;'', AMP), (js ''lt;'', LT), (js ''gt;'', GT),
      (js ''quot;'', QUOT), (js ''apos;'', APOS)]"

fun first_entity :: "(jsstring \<times> jschar) list \<Rightarrow> jsstring \<Rightarrow> (jschar \<times> jsstring) option" where
  "first_entity [] cs = None"
| "first_entity ((name, ch) # tbl) cs =
     (case strip_prefix name cs of
        Some r \<Rightarrow> Some (ch, r)
      | None \<Rightarrow> first_entity tbl cs)"

definition decode_entity :: "jsstring \<Rightarrow> (jschar \<times> jsstring) option" where
  "decode_entity cs = first_entity entities cs"

lemma strip_prefix_length: "strip_prefix p ys = Some r \<Longrightarrow> length r \<le> length ys"
  by (induction p ys rule: strip_prefix.induct) (auto split: if_splits)

lemma first_entity_length: "first_entity tbl cs = Some (d, r) \<Longrightarrow> length r \<le> length cs"
  by (induction tbl cs rule: first_entity.induct)
     (auto split: option.splits dest: strip_prefix_length)

lemma decode_entity_length: "decode_entity cs = Some (d, r) \<Longrightarrow> length r \<le> length cs"
  by (simp add: decode_entity_def first_entity_length)

function unesc :: "jsstring \<Rightarrow> jsstring option" where
  "unesc [] = Some []"
| "unesc (x # cs) =
     (if x = AMP then
        (case decode_entity cs of
           None \<Rightarrow> None
         | Some (d, r) \<Rightarrow> map_option ((#) d) (unesc r))
      else if x = LT \<or> x = GT \<or> x = QUOT \<or> x = APOS then None
      else map_option ((#) x) (unesc cs))"
  by pat_completeness auto
termination
  by (relation "measure length") (auto dest: decode_entity_length)

section \<open>Arrays, Maps and objects of the language\<close>

text \<open>
  \<open>Array.prototype.sort(cmp)\<close> is stable, and for a consistent comparator (one whose
  \<open>cmp a b \<le> 0\<close> is a total preorder on the elements) every stable sort returns the
  same array. It is modelled by stable insertion sort. For an inconsistent comparator
  the language leaves the order to the engine; the theorems below that depend on the
  order assume consistency.
\<close>

fun insort_cmp :: "('a \<Rightarrow> 'a \<Rightarrow> int) \<Rightarrow> 'a \<Rightarrow> 'a list \<Rightarrow> 'a list" where
  "insort_cmp cmp x [] = [x]"
| "insort_cmp cmp x (y # ys) =
     (if cmp x y \<le> 0 then x # y # ys else y # insort_cmp cmp x ys)"

definition js_sort :: "('a \<Rightarrow> 'a \<Rightarrow> int) \<Rightarrow> 'a list \<Rightarrow> 'a list" where
  "js_sort cmp xs = foldr (insort_cmp cmp) xs []"

text \<open>\<open>xs.indexOf(x)\<close>: the first index holding \<open>x\<close>, or \<open>-1\<close>.\<close>

fun indexOf :: "'a list \<Rightarrow> 'a \<Rightarrow> int" where
  "indexOf [] x = -1"
| "indexOf (y # ys) x =
     (if y = x then 0 else (let r = indexOf ys x in if r = -1 then -1 else r + 1))"

text \<open>
  A \<open>Map\<close> and the own properties of an object are association lists in insertion
  order with distinct keys. \<open>alist_update k f\<close> is the mutation, through the reference
  that \<open>get(k)\<close> or \<open>obj[k]\<close> returns, of the value stored under \<open>k\<close>.
\<close>

definition alist_update :: "'k \<Rightarrow> ('v \<Rightarrow> 'v) \<Rightarrow> ('k \<times> 'v) list \<Rightarrow> ('k \<times> 'v) list" where
  "alist_update k f al = map (\<lambda>(k', v). if k' = k then (k', f v) else (k', v)) al"

text \<open>\<open>set.add(y)\<close> on a \<open>Set\<close>, kept in insertion order.\<close>

definition set_add :: "'a list \<Rightarrow> 'a \<Rightarrow> 'a list" where
  "set_add ys y = (if y \<in> set ys then ys else ys @ [y])"

text \<open>
  An object literal \<open>{}\<close> inherits the members of \<open>Object.prototype\<close>. Reading
  \<open>obj[k]\<close> for one of these names on an object without an own property \<open>k\<close> returns
  the inherited member, which is truthy and is not an array.
\<close>

definition object_prototype_names :: "jsstring list" where
  "object_prototype_names = map js
     [''constructor'', ''hasOwnProperty'', ''isPrototypeOf'', ''propertyIsEnumerable'',
      ''toLocaleString'', ''toString'', ''valueOf'', ''__proto__'',
      ''__defineGetter__'', ''__defineSetter__'', ''__lookupGetter__'', ''__lookupSetter__'']"

datatype js_error = TypeError

text \<open>
  \<open>Object.entries(obj)\<close> lists the own properties whose key is an array index (the
  canonical decimal form of an integer from 0 to \<open>2^32 - 2\<close>) first, in ascending
  numeric order, and then the other keys in insertion order.
\<close>

definition digit_value :: "jsstring \<Rightarrow> int" where
  "digit_value s = foldl (\<lambda>acc d. acc * 10 + (uint d - 48)) 0 s"

definition is_array_index :: "jsstring \<Rightarrow> bool" where
  "is_array_index s \<longleftrightarrow>
     s \<noteq> [] \<and> list_all (\<lambda>d. 0x30 \<le> d \<and> d \<le> 0x39) s \<and>
     (length s = 1 \<or> hd s \<noteq> 0x30) \<and> digit_value s \<le> 4294967294"

definition object_entries :: "(jsstring \<times> 'v) list \<Rightarrow> (jsstring \<times> 'v) list" where
  "object_entries obj =
     js_sort (\<lambda>(a, _) (b, _). digit_value a - digit_value b)
       (filter (\<lambda>(k, _). is_array_index k) obj)
     @ filter (\<lambda>(k, _). \<not> is_array_index k) obj"

section \<open>app/tendance/page.tsx: filtering and aggregation\<close>

text \<open>
  Numbers of the source hold integers here (years and question counts); they are
  modelled as \<open>int\<close>, which agrees with the language's doubles below \<open>2^53\<close>.
\<close>

record GranularEntry =
  m :: jsstring
  sd :: jsstring
  c :: jsstring
  ey :: int
  et :: jsstring
  cnt :: int

record CoursEntry =
  "module_name" :: jsstring
  sub_discipline :: jsstring
  cours_topic :: jsstring
  question_count :: int
  years_appeared :: int
  exam_years_list :: "int list"

text \<open>The value type of \<open>aggMap\<close>: \<open>{ m, sd, c, years: Set<number>, count }\<close>.\<close>

record agg_item =
  item_m :: jsstring
  item_sd :: jsstring
  item_c :: jsstring
  item_years :: "int list"
  item_count :: int

text \<open>
  \<open>a.localeCompare(b)\<close> depends on the collation of the host's locale, which is not
  part of the repository. It is the parameter \<open>lc\<close> of every function that sorts
  names: negative when \<open>a\<close> sorts first, positive when \<open>b\<close> does, 0 when the collation
  does not tell them apart.
\<close>

type_synonym collation = "jsstring \<Rightarrow> jsstring \<Rightarrow> int"

text \<open>
  \<^verbatim>\<open>
  const matchType = selectedExamTypes.length === 0 || selectedExamTypes.includes(e.et);
  const matchPromo = selectedPromos.length === 0 || selectedPromos.includes(e.ey);
  return matchType && matchPromo;
  \<close>
\<close>

definition matches :: "jsstring list \<Rightarrow> int list \<Rightarrow> GranularEntry \<Rightarrow> bool" where
  "matches selectedExamTypes selectedPromos e =
     (let matchType = (length selectedExamTypes = 0 \<or> et e \<in> set selectedExamTypes);
          matchPromo = (length selectedPromos = 0 \<or> ey e \<in> set selectedPromos)
      in matchType \<and> matchPromo)"

text \<open>The key \<^verbatim>\<open>`${e.m}|||${e.sd}|||${e.c}`\<close>.\<close>

definition agg_key :: "GranularEntry \<Rightarrow> jsstring" where
  "agg_key e = m e @ js ''|||'' @ sd e @ js ''|||'' @ c e"

text \<open>
  One iteration of the loop over \<open>filtered\<close>:
  \<^verbatim>\<open>
  if (!aggMap.has(key)) {
    aggMap.set(key, { m: e.m, sd: e.sd, c: e.c, years: new Set(), count: 0 });
  }
  const item = aggMap.get(key)!;
  item.years.add(e.ey);
  item.count += e.cnt;
  \<close>
\<close>

definition agg_step :: "(jsstring \<times> agg_item) list \<Rightarrow> GranularEntry \<Rightarrow> (jsstring \<times> agg_item) list" where
  "agg_step aggMap e =
     (let key = agg_key e;
          aggMap1 =
            (if key \<notin> fst ` set aggMap
             then aggMap @ [(key, \<lparr>item_m = m e, item_sd = sd e, item_c = c e,
                                     item_years = [], item_count = 0\<rparr>)]
             else aggMap)
      in alist_update key
           (\<lambda>item. item\<lparr>item_years := set_add (item_years item) (ey e),
                         item_count := item_count item + cnt e\<rparr>)
           aggMap1)"

definition toCoursEntry :: "agg_item \<Rightarrow> CoursEntry" where
  "toCoursEntry v =
     \<lparr>module_name = item_m v, sub_discipline = item_sd v, cours_topic = item_c v,
      question_count = item_count v, years_appeared = int (length (item_years v)),
      exam_years_list = js_sort (\<lambda>a b. a - b) (item_years v)\<rparr>"

text \<open>
  \<^verbatim>\<open>
  if (a.module_name !== b.module_name) return a.module_name.localeCompare(b.module_name);
  if (a.sub_discipline !== b.sub_discipline)
    return a.sub_discipline.localeCompare(b.sub_discipline);
  return b.question_count - a.question_count;
  \<close>
\<close>

definition compareCours :: "collation \<Rightarrow> CoursEntry \<Rightarrow> CoursEntry \<Rightarrow> int" where
  "compareCours lc a b =
     (if module_name a \<noteq> module_name b then lc (module_name a) (module_name b)
      else if sub_discipline a \<noteq> sub_discipline b
           then lc (sub_discipline a) (sub_discipline b)
      else question_count b - question_count a)"

definition aggregate :: "GranularEntry list \<Rightarrow> (jsstring \<times> agg_item) list" where
  "aggregate filtered = foldl agg_step [] filtered"

definition filteredData ::
  "collation \<Rightarrow> GranularEntry list \<Rightarrow> jsstring list \<Rightarrow> int list \<Rightarrow> CoursEntry list" where
  "filteredData lc rawEntries selectedExamTypes selectedPromos =
     (if length rawEntries = 0 then []
      else
        let filtered = filter (matches selectedExamTypes selectedPromos) rawEntries;
            aggMap = aggregate filtered
        in js_sort (compareCours lc) (map toCoursEntry (map snd aggMap)))"

section \<open>app/tendance/page.tsx: projection by module and sub-discipline\<close>

definition filteredByModule :: "CoursEntry list \<Rightarrow> jsstring \<Rightarrow> CoursEntry list" where
  "filteredByModule fd selectedModule = filter (\<lambda>d. module_name d = selectedModule) fd"

text \<open>
  One iteration of the grouping loop, which both \<open>groupedBySubDisc\<close> and
  \<open>buildSvgDataForModule\<close> contain:
  \<^verbatim>\<open>
  if (!groups[d.sub_discipline]) groups[d.sub_discipline] = [];
  groups[d.sub_discipline].push(d);
  \<close>
  \<open>groups\<close> starts as \<open>{}\<close>. When the sub-discipline is the name of a member of
  \<open>Object.prototype\<close>, the test reads that member, no array is stored, and the call of
  \<open>push\<close> throws a \<open>TypeError\<close>.
\<close>

definition group_step ::
  "(jsstring \<times> CoursEntry list) list \<Rightarrow> CoursEntry \<Rightarrow> js_error + (jsstring \<times> CoursEntry list) list" where
  "group_step groups d =
     (let k = sub_discipline d in
      if k \<in> set object_prototype_names then Inl TypeError
      else
        let groups1 = (if k \<notin> fst ` set groups then groups @ [(k, [])] else groups)
        in Inr (alist_update k (\<lambda>es. es @ [d]) groups1))"

fun group_loop ::
  "(jsstring \<times> CoursEntry list) list \<Rightarrow> CoursEntry list \<Rightarrow> js_error + (jsstring \<times> CoursEntry list) list" where
  "group_loop groups [] = Inr groups"
| "group_loop groups (d # ds) =
     (case group_step groups d of
        Inl err \<Rightarrow> Inl err
      | Inr groups' \<Rightarrow> group_loop groups' ds)"

definition order :: "jsstring list" where
  "order = map js [''Anatomie'', ''Histologie'', ''Physiologie'', ''Biochimie'', ''Biophysique'']"

text \<open>
  \<^verbatim>\<open>
  const ia = order.indexOf(a);
  const ib = order.indexOf(b);
  if (ia === -1 && ib === -1) return a.localeCompare(b);
  if (ia === -1) return 1;
  if (ib === -1) return -1;
  return ia - ib;
  \<close>
\<close>

definition compareSubDisc :: "collation \<Rightarrow> jsstring \<times> 'v \<Rightarrow> jsstring \<times> 'v \<Rightarrow> int" where
  "compareSubDisc lc x y =
     (let a = fst x; b = fst y; ia = indexOf order a; ib = indexOf order b in
      if ia = -1 \<and> ib = -1 then lc a b
      else if ia = -1 then 1
      else if ib = -1 then -1
      else ia - ib)"

definition groupedBySubDisc ::
  "collation \<Rightarrow> CoursEntry list \<Rightarrow> js_error + (jsstring \<times> CoursEntry list) list" where
  "groupedBySubDisc lc fbm =
     (case group_loop [] fbm of
        Inl err \<Rightarrow> Inl err
      | Inr groups \<Rightarrow> Inr (js_sort (compareSubDisc lc) (object_entries groups)))"

section \<open>lib/tendance-svg-export.ts: the export options\<close>

record SvgCourseEntry =
  svg_cours_topic :: jsstring
  svg_question_count :: int

record SvgSubDiscGroup =
  svg_sub_discipline :: jsstring
  svg_entries :: "SvgCourseEntry list"

record SvgExportOptions =
  moduleName :: jsstring
  totalQuestions :: int
  examYearsRange :: jsstring
  totalExamYears :: int
  subDiscGroups :: "SvgSubDiscGroup list"

text \<open>
  \<open>buildSvgDataForModule(modName, allowedSubDiscs)\<close> of page.tsx. \<open>examYearsRange\<close> and
  \<open>totalExamYears\<close> are values of the enclosing component and are parameters here;
  the optional argument is an \<open>option\<close>.
\<close>

definition buildSvgDataForModule ::
  "collation \<Rightarrow> CoursEntry list \<Rightarrow> jsstring \<Rightarrow> int \<Rightarrow> jsstring \<Rightarrow> jsstring list option
   \<Rightarrow> js_error + SvgExportOptions" where
  "buildSvgDataForModule lc fd eyRange eyTotal modName allowedSubDiscs =
     (let modEntries0 = filter (\<lambda>d. module_name d = modName) fd;
          modEntries =
            (case allowedSubDiscs of
               Some allowed \<Rightarrow>
                 if length allowed > 0
                 then filter (\<lambda>d. sub_discipline d \<in> set allowed) modEntries0
                 else modEntries0
             | None \<Rightarrow> modEntries0);
          totalQ = foldl (\<lambda>sum e. sum + question_count e) 0 modEntries
      in case group_loop [] modEntries of
           Inl err \<Rightarrow> Inl err
         | Inr groups \<Rightarrow>
             let sorted = js_sort (compareSubDisc lc) (object_entries groups)
             in Inr \<lparr>moduleName = modName, totalQuestions = totalQ,
                     examYearsRange = eyRange, totalExamYears = eyTotal,
                     subDiscGroups =
                       map (\<lambda>(subDisc, entries).
                              \<lparr>svg_sub_discipline = subDisc,
                               svg_entries =
                                 map (\<lambda>e. \<lparr>svg_cours_topic = cours_topic e,
                                             svg_question_count = question_count e\<rparr>)
                                     entries\<rparr>)
                           sorted\<rparr>)"

section \<open>lib/tendance-svg-export.ts: the generator\<close>

definition SUB_DISC_ACCENT :: "(jsstring \<times> jsstring) list" where
  "SUB_DISC_ACCENT =
     [(js ''Anatomie'', js ''#f43f5e''), (js ''Histologie'', js ''#a855f7''),
      (js ''Physiologie'', js ''#3b82f6''), (js ''Biochimie'', js ''#10b981''),
      (js ''Biophysique'', js ''#f59e0b'')]"

text \<open>The icons are emoji, written as their UTF-16 code units.\<close>

definition SUB_DISC_ICONS :: "(jsstring \<times> jsstring) list" where
  "SUB_DISC_ICONS =
     [(js ''Anatomie'', [0xD83E, 0xDEC0]), (js ''Histologie'', [0xD83D, 0xDD2C]),
      (js ''Physiologie'', [0x26A1]), (js ''Biochimie'', [0xD83E, 0xDDEA]),
      (js ''Biophysique'', [0xD83D, 0xDCD0])]"

definition BRAND_COLOR :: jsstring where "BRAND_COLOR = js ''#09b2ac''"
definition DEFAULT_ICON :: jsstring where "DEFAULT_ICON = [0xD83D, 0xDCD6]"
definition MAX_COURSES :: int where "MAX_COURSES = 5"

text \<open>
  \<open>TABLE[k] || dflt\<close> on one of the two tables above: the table's own string, or
  else the member of \<open>Object.prototype\<close> of that name (truthy; the template prints
  its string conversion), or else the default.
\<close>

datatype js_value = Str jsstring | Inherited jsstring

definition lookup_or :: "(jsstring \<times> jsstring) list \<Rightarrow> jsstring \<Rightarrow> jsstring \<Rightarrow> js_value" where
  "lookup_or tbl k dflt =
     (case map_of tbl k of
        Some v \<Rightarrow> Str v
      | None \<Rightarrow> if k \<in> set object_prototype_names then Inherited k else Str dflt)"

definition W :: int where "W = 1080"
definition H :: int where "H = 1080"
definition PAD :: int where "PAD = 48"
definition footerReserve :: int where "footerReserve = 60"
definition groupHeaderH :: int where "groupHeaderH = 32"
definition courseRowH :: int where "courseRowH = 36"
definition groupGap :: int where "groupGap = 20"
definition contentW :: int where "contentW = W - PAD * 2"

text \<open>
  The cursor \<open>y\<close> when the groups start: \<open>let y = PAD\<close>, then \<open>y += 44\<close> (badge),
  \<open>y += 60\<close> (module name and statistics) and \<open>y += 28\<close> (divider).
\<close>

definition body_y0 :: int where "body_y0 = PAD + 44 + 60 + 28"

definition availableHeight :: int where
  "availableHeight = H - body_y0 - footerReserve"

text \<open>
  \<^verbatim>\<open>
  const numGroups = subDiscGroups.length;
  const totalGroupHeaders = numGroups * groupHeaderH;
  const totalGaps = Math.max(0, numGroups - 1) * groupGap;
  const spaceForCourses = availableHeight - totalGroupHeaders - totalGaps;
  const totalCourseSlots = subDiscGroups.reduce(
    (sum, g) => sum + Math.min(g.entries.length, MAX_COURSES), 0);
  const dynamicMaxCourses = totalCourseSlots > 0
    ? Math.max(2, Math.floor(spaceForCourses / courseRowH / numGroups))
    : MAX_COURSES;
  const effectiveMax = Math.min(MAX_COURSES, dynamicMaxCourses);
  \<close>
  The two divisions are divisions of numbers, not of integers; they are taken in
  the rationals. (The quotients that occur have a denominator of at most \<open>36 * numGroups\<close>,
  far from the precision of a double, so the floor agrees.)
\<close>

definition numGroups :: "SvgSubDiscGroup list \<Rightarrow> int" where
  "numGroups groups = int (length groups)"

definition spaceForCourses :: "SvgSubDiscGroup list \<Rightarrow> int" where
  "spaceForCourses groups =
     (let totalGroupHeaders = numGroups groups * groupHeaderH;
          totalGaps = max 0 (numGroups groups - 1) * groupGap
      in availableHeight - totalGroupHeaders - totalGaps)"

definition totalCourseSlots :: "SvgSubDiscGroup list \<Rightarrow> int" where
  "totalCourseSlots groups =
     foldl (\<lambda>sum g. sum + min (int (length (svg_entries g))) MAX_COURSES) 0 groups"

definition dynamicMaxCourses :: "SvgSubDiscGroup list \<Rightarrow> int" where
  "dynamicMaxCourses groups =
     (if totalCourseSlots groups > 0
      then max 2 \<lfloor>(of_int (spaceForCourses groups) :: rat) / of_int courseRowH
                    / of_int (numGroups groups)\<rfloor>
      else MAX_COURSES)"

definition effectiveMax :: "SvgSubDiscGroup list \<Rightarrow> int" where
  "effectiveMax groups = min MAX_COURSES (dynamicMaxCourses groups)"

text \<open>
  The document is assembled from template literals. Each template pushed onto
  \<open>bodyParts\<close> is a constructor that records, in the order of the template, the values
  interpolated into it; the fixed markup between them is the template's and is not
  repeated here.
  \<^item> \<open>GroupHeader\<close>: \<open>y + 20\<close>, the icon, the accent, \<open>esc(group.sub_discipline)\<close>, the
    \<open>x\<close> of the "Top n" text and \<open>displayEntries.length\<close>;
  \<^item> \<open>RankNumber\<close>: \<open>y + 20\<close> and \<open>idx + 1\<close>;
  \<^item> \<open>BarBackground\<close>: \<open>rowX\<close>, \<open>y + 2\<close>, \<open>barAreaW\<close>;
  \<^item> \<open>BarFill\<close>: \<open>rowX\<close>, \<open>y + 2\<close>, \<open>barW\<close>, and the group index \<open>gi\<close> of its gradient;
  \<^item> \<open>CourseName\<close>: \<open>rowX + 12\<close>, \<open>y + 21\<close>, \<open>esc(truncated)\<close>;
  \<^item> \<open>QuestionCount\<close>: \<open>W - PAD\<close>, \<open>y + 21\<close>, the accent, \<open>entry.question_count\<close>.
\<close>

datatype body_part =
    GroupHeader int js_value js_value jsstring int int
  | RankNumber int int
  | BarBackground int int int
  | BarFill int int int nat
  | CourseName int int jsstring
  | QuestionCount int int js_value int

text \<open>\<open>const maxQ = displayEntries[0]?.question_count || 1\<close>: 0 and a missing entry give 1.\<close>

definition maxQ :: "SvgCourseEntry list \<Rightarrow> int" where
  "maxQ displayEntries =
     (case displayEntries of
        [] \<Rightarrow> 1
      | e # _ \<Rightarrow> if svg_question_count e = 0 then 1 else svg_question_count e)"

text \<open>\<open>Math.max(8, (entry.question_count / maxQ) * 100)\<close>, in the rationals.\<close>

definition barPct :: "int \<Rightarrow> int \<Rightarrow> rat" where
  "barPct qc mq = max 8 (of_int qc / of_int mq * 100)"

text \<open>\<open>Math.round\<close>: the nearest integer, halves upwards.\<close>

definition js_round :: "rat \<Rightarrow> int" where
  "js_round x = \<lfloor>x + 1 / 2\<rfloor>"

text \<open>The body of \<open>displayEntries.forEach((entry, idx) => ...)\<close>, on the cursor and \<open>bodyParts\<close>.\<close>

definition render_row ::
  "js_value \<Rightarrow> nat \<Rightarrow> int \<Rightarrow> int \<times> body_part list \<Rightarrow> nat \<times> SvgCourseEntry
   \<Rightarrow> int \<times> body_part list" where
  "render_row accent gi mq st ie =
     (let y = fst st; bodyParts = snd st; idx = fst ie; entry = snd ie;
          pct = barPct (svg_question_count entry) mq;
          barW = js_round (of_int (contentW - 80) * (pct / 100));
          rowX = PAD + 32;
          barAreaW = contentW - 80;
          truncated = truncateText (svg_cours_topic entry) 50
      in (y + courseRowH,
          bodyParts @
            [RankNumber (y + 20) (int idx + 1),
             BarBackground rowX (y + 2) barAreaW,
             BarFill rowX (y + 2) barW gi,
             CourseName (rowX + 12) (y + 21) (esc truncated),
             QuestionCount (W - PAD) (y + 21) accent (svg_question_count entry)]))"

text \<open>
  The body of \<open>subDiscGroups.forEach((group, gi) => ...)\<close>; \<open>cap\<close> is \<open>effectiveMax\<close> and
  \<open>n\<close> is \<open>subDiscGroups.length\<close>.
\<close>

definition render_group ::
  "int \<Rightarrow> int \<Rightarrow> int \<times> body_part list \<Rightarrow> nat \<times> SvgSubDiscGroup \<Rightarrow> int \<times> body_part list" where
  "render_group cap n st ig =
     (let y = fst st; bodyParts = snd st; gi = fst ig; group = snd ig;
          accent = lookup_or SUB_DISC_ACCENT (svg_sub_discipline group) BRAND_COLOR;
          icon = lookup_or SUB_DISC_ICONS (svg_sub_discipline group) DEFAULT_ICON;
          displayEntries = slice0 (svg_entries group) cap;
          mq = maxQ displayEntries;
          header =
            GroupHeader (y + 20) icon accent (esc (svg_sub_discipline group))
              (PAD + 34 + int (length (svg_sub_discipline group)) * 10 + 12)
              (int (length displayEntries));
          st1 = foldl (render_row accent gi mq) (y + groupHeaderH, bodyParts @ [header])
                  (enumerate 0 displayEntries)
      in (if int gi < n - 1 then fst st1 + groupGap else fst st1, snd st1))"

definition render_groups :: "SvgSubDiscGroup list \<Rightarrow> int \<times> body_part list" where
  "render_groups groups =
     foldl (render_group (effectiveMax groups) (int (length groups))) (body_y0, [])
       (enumerate 0 groups)"

text \<open>
  The assembled document, by the values interpolated into its templates: the
  gradient definitions (index and accent of each group), the header (the escaped
  module name, \<open>totalQuestions\<close>, and \<open>totalExamYears\<close> with the escaped year range),
  the body, and the footer (\<open>totalExamYears\<close> and the escaped year range again).
\<close>

record svg_document =
  doc_gradients :: "(nat \<times> js_value) list"
  doc_moduleName :: jsstring
  doc_totalQuestions :: int
  doc_promos :: "int \<times> jsstring"
  doc_body :: "body_part list"
  doc_footer :: "int \<times> jsstring"

definition generateTendanceSVG :: "SvgExportOptions \<Rightarrow> svg_document" where
  "generateTendanceSVG opts =
     \<lparr>doc_gradients =
        map (\<lambda>(i, g). (i, lookup_or SUB_DISC_ACCENT (svg_sub_discipline g) BRAND_COLOR))
            (enumerate 0 (subDiscGroups opts)),
      doc_moduleName = esc (moduleName opts),
      doc_totalQuestions = totalQuestions opts,
      doc_promos = (totalExamYears opts, esc (examYearsRange opts)),
      doc_body = snd (render_groups (subDiscGroups opts)),
      doc_footer = (totalExamYears opts, esc (examYearsRange opts))\<rparr>"



section \<open>Notions used to state the properties\<close>

subsection \<open>Comparators and collations\<close>

text \<open>
  A comparator is consistent on a set when \<open>cmp a b \<le> 0\<close> is total and transitive on
  it: the condition under which the language fixes the result of \<open>sort\<close>.
\<close>

definition consistent_on :: "('a \<Rightarrow> 'a \<Rightarrow> int) \<Rightarrow> 'a set \<Rightarrow> bool" where
  "consistent_on cmp A \<longleftrightarrow>
     (\<forall>a\<in>A. \<forall>b\<in>A. cmp a b \<le> 0 \<or> cmp b a \<le> 0) \<and>
     (\<forall>a\<in>A. \<forall>b\<in>A. \<forall>c\<in>A. cmp a b \<le> 0 \<longrightarrow> cmp b c \<le> 0 \<longrightarrow> cmp a c \<le> 0)"

text \<open>
  What the language requires of \<open>localeCompare\<close>: it is a consistent comparator on
  all strings. It may return 0 for two different strings (the collation need not tell
  them apart); \<open>distinguishes lc S\<close> says that it tells the strings of \<open>S\<close> apart.
\<close>

definition consistent_collation :: "collation \<Rightarrow> bool" where
  "consistent_collation lc \<longleftrightarrow>
     (\<forall>a. lc a a = 0) \<and>
     (\<forall>a b. (lc a b < 0) = (0 < lc b a)) \<and>
     (\<forall>a b d. lc a b \<le> 0 \<longrightarrow> lc b d \<le> 0 \<longrightarrow> lc a d \<le> 0)"

definition distinguishes :: "collation \<Rightarrow> jsstring set \<Rightarrow> bool" where
  "distinguishes lc S \<longleftrightarrow> (\<forall>a\<in>S. \<forall>b\<in>S. lc a b = 0 \<longrightarrow> a = b)"

text \<open>
  A collation to instantiate the parameter with: comparison of the code units, left
  to right (the order of the language's \<open><\<close> on strings).
\<close>

fun codeunit_compare :: collation where
  "codeunit_compare [] [] = 0"
| "codeunit_compare [] (y # ys) = -1"
| "codeunit_compare (x # xs) [] = 1"
| "codeunit_compare (x # xs) (y # ys) =
     (if x < y then -1 else if y < x then 1 else codeunit_compare xs ys)"

text \<open>
  The language requires \<open>localeCompare\<close> to honour canonical equivalence: it returns 0
  for two spellings of the same text, although they are different strings.
  \<open>canonical_compare\<close> is such a collation for the two spellings of \<open>e\<close> with an acute
  accent, the single code unit U+00E9 and the letter U+0065 followed by the combining
  accent U+0301: it compares the code units after composing the second spelling.
\<close>

fun compose_acute :: "jsstring \<Rightarrow> jsstring" where
  "compose_acute (x # y # zs) =
     (if x = 0x65 \<and> y = 0x301 then 0xE9 # compose_acute zs else x # compose_acute (y # zs))"
| "compose_acute xs = xs"

definition canonical_compare :: collation where
  "canonical_compare a b = codeunit_compare (compose_acute a) (compose_acute b)"

subsection \<open>The aggregation\<close>

text \<open>The (module, sub-discipline, course) triple of a record, of an entry of \<open>aggMap\<close> and of a \<open>CoursEntry\<close>.\<close>

definition triple :: "GranularEntry \<Rightarrow> jsstring \<times> jsstring \<times> jsstring" where
  "triple r = (m r, sd r, c r)"

definition item_triple :: "agg_item \<Rightarrow> jsstring \<times> jsstring \<times> jsstring" where
  "item_triple v = (item_m v, item_sd v, item_c v)"

definition cours_triple :: "CoursEntry \<Rightarrow> jsstring \<times> jsstring \<times> jsstring" where
  "cours_triple d = (module_name d, sub_discipline d, cours_topic d)"

text \<open>The key of a triple, as \<open>agg_key\<close> builds it from a record.\<close>

definition key_of :: "jsstring \<times> jsstring \<times> jsstring \<Rightarrow> jsstring" where
  "key_of t = (case t of (a, b, d) \<Rightarrow> a @ js ''|||'' @ b @ js ''|||'' @ d)"

text \<open>The position of the first record of a stream that has the triple \<open>t\<close>.\<close>

definition first_pos :: "jsstring \<times> jsstring \<times> jsstring \<Rightarrow> GranularEntry list \<Rightarrow> nat" where
  "first_pos t rs = length (takeWhile (\<lambda>r. triple r \<noteq> t) rs)"

text \<open>The two halves of one iteration of the aggregation loop: the new item and the mutation.\<close>

definition fresh :: "GranularEntry \<Rightarrow> agg_item" where
  "fresh e = \<lparr>item_m = m e, item_sd = sd e, item_c = c e, item_years = [], item_count = 0\<rparr>"

definition bump :: "GranularEntry \<Rightarrow> agg_item \<Rightarrow> agg_item" where
  "bump e item = item\<lparr>item_years := set_add (item_years item) (ey e),
                         item_count := item_count item + cnt e\<rparr>"

text \<open>The entries before the final sort.\<close>

definition unsorted :: "GranularEntry list \<Rightarrow> CoursEntry list" where
  "unsorted F = map toCoursEntry (map snd (aggregate F))"

text \<open>The entries whose module and sub-discipline names lie in \<open>S\<close>.\<close>

definition named_in :: "jsstring set \<Rightarrow> CoursEntry set" where
  "named_in S = {d. module_name d \<in> S \<and> sub_discipline d \<in> S}"

text \<open>
  \<open>cours_before lc x y\<close>: by module name, then by sub-discipline name, then by
  descending question count, \<open>x\<close> may stand before \<open>y\<close>. \<open>same_rank\<close> selects the
  entries that agree on the three.
\<close>

definition cours_before :: "collation \<Rightarrow> CoursEntry \<Rightarrow> CoursEntry \<Rightarrow> bool" where
  "cours_before lc x y \<longleftrightarrow>
     lc (module_name x) (module_name y) < 0 \<or>
     (module_name x = module_name y \<and>
      (lc (sub_discipline x) (sub_discipline y) < 0 \<or>
       (sub_discipline x = sub_discipline y \<and> question_count y \<le> question_count x)))"

definition same_rank :: "jsstring \<Rightarrow> jsstring \<Rightarrow> int \<Rightarrow> CoursEntry \<Rightarrow> bool" where
  "same_rank mo su n d \<longleftrightarrow> module_name d = mo \<and> sub_discipline d = su \<and> question_count d = n"

text \<open>
  \<open>ranked_before F a b\<close>: among entries of one sub-discipline, \<open>a\<close> may stand before
  \<open>b\<close>: it has more questions, or as many and its triple occurs first in the stream
  \<open>F\<close> of filtered records.
\<close>

definition ranked_before :: "GranularEntry list \<Rightarrow> CoursEntry \<Rightarrow> CoursEntry \<Rightarrow> bool" where
  "ranked_before F a b \<longleftrightarrow>
     question_count b < question_count a \<or>
     (question_count a = question_count b \<and>
      first_pos (cours_triple a) F < first_pos (cours_triple b) F)"

text \<open>
  \<open>agg_before lc F a b\<close>: in the output of the aggregation, \<open>a\<close> may stand before \<open>b\<close>:
  by module name, then by sub-discipline name, then by descending question count, and
  for entries equal on the three by the first occurrence of their triple in \<open>F\<close>.
\<close>

definition agg_before :: "collation \<Rightarrow> GranularEntry list \<Rightarrow> CoursEntry \<Rightarrow> CoursEntry \<Rightarrow> bool" where
  "agg_before lc F a b \<longleftrightarrow>
     lc (module_name a) (module_name b) < 0 \<or>
     (module_name a = module_name b \<and>
      (lc (sub_discipline a) (sub_discipline b) < 0 \<or>
       (sub_discipline a = sub_discipline b \<and> ranked_before F a b)))"

subsection \<open>The projection\<close>

text \<open>
  \<open>grouped p groups\<close>: the object \<open>groups\<close> after the grouping loop has consumed the
  entries \<open>p\<close>.
\<close>

definition grouped :: "CoursEntry list \<Rightarrow> (jsstring \<times> CoursEntry list) list \<Rightarrow> bool" where
  "grouped p groups \<longleftrightarrow>
     distinct (map fst groups) \<and>
     fst ` set groups = sub_discipline ` set p \<and>
     (\<forall>(k, es)\<in>set groups. es = filter (\<lambda>d. sub_discipline d = k) p)"

text \<open>The sorted entries of \<open>groups\<close>, common to both functions that build blocks.\<close>

definition blocks_of :: "collation \<Rightarrow> (jsstring \<times> 'v) list \<Rightarrow> (jsstring \<times> 'v) list" where
  "blocks_of lc groups = js_sort (compareSubDisc lc) (object_entries groups)"


subsection \<open>The body of the document\<close>

text \<open>
  Readings of a body: the labels of the course rows, the label and the "Top n" count
  of the group headers, and the widths of the filled bars, each in document order.
\<close>

fun course_label :: "body_part \<Rightarrow> jsstring list" where
  "course_label (CourseName x y label) = [label]"
| "course_label _ = []"

fun header_info :: "body_part \<Rightarrow> (jsstring \<times> int) list" where
  "header_info (GroupHeader y icon accent label x n) = [(label, n)]"
| "header_info _ = []"

fun bar_width :: "body_part \<Rightarrow> int list" where
  "bar_width (BarFill x y w gi) = [w]"
| "bar_width _ = []"

text \<open>
  The parts that one row, the rows of one group, one group and a sequence of groups
  add to the body, and the height that one group adds to the cursor.
\<close>

definition row_parts :: "js_value \<Rightarrow> nat \<Rightarrow> int \<Rightarrow> int \<Rightarrow> nat \<Rightarrow> SvgCourseEntry \<Rightarrow> body_part list" where
  "row_parts accent gi mq y idx entry =
     [RankNumber (y + 20) (int idx + 1),
      BarBackground (PAD + 32) (y + 2) (contentW - 80),
      BarFill (PAD + 32) (y + 2)
        (js_round (of_int (contentW - 80) * (barPct (svg_question_count entry) mq / 100))) gi,
      CourseName (PAD + 32 + 12) (y + 21) (esc (truncateText (svg_cours_topic entry) 50)),
      QuestionCount (W - PAD) (y + 21) accent (svg_question_count entry)]"

fun rows_parts :: "js_value \<Rightarrow> nat \<Rightarrow> int \<Rightarrow> int \<Rightarrow> nat \<Rightarrow> SvgCourseEntry list \<Rightarrow> body_part list" where
  "rows_parts accent gi mq y k [] = []"
| "rows_parts accent gi mq y k (e # es) =
     row_parts accent gi mq y k e @ rows_parts accent gi mq (y + courseRowH) (Suc k) es"

definition group_parts :: "int \<Rightarrow> int \<Rightarrow> nat \<Rightarrow> SvgSubDiscGroup \<Rightarrow> body_part list" where
  "group_parts cap y gi g =
     GroupHeader (y + 20)
       (lookup_or SUB_DISC_ICONS (svg_sub_discipline g) DEFAULT_ICON)
       (lookup_or SUB_DISC_ACCENT (svg_sub_discipline g) BRAND_COLOR)
       (esc (svg_sub_discipline g))
       (PAD + 34 + int (length (svg_sub_discipline g)) * 10 + 12)
       (int (length (slice0 (svg_entries g) cap)))
     # rows_parts (lookup_or SUB_DISC_ACCENT (svg_sub_discipline g) BRAND_COLOR) gi
         (maxQ (slice0 (svg_entries g) cap)) (y + groupHeaderH) 0
         (slice0 (svg_entries g) cap)"

definition group_height :: "int \<Rightarrow> int \<Rightarrow> nat \<Rightarrow> SvgSubDiscGroup \<Rightarrow> int" where
  "group_height cap n gi g =
     groupHeaderH + courseRowH * int (length (slice0 (svg_entries g) cap))
     + (if int gi < n - 1 then groupGap else 0)"

fun groups_parts :: "int \<Rightarrow> int \<Rightarrow> int \<Rightarrow> nat \<Rightarrow> SvgSubDiscGroup list \<Rightarrow> body_part list" where
  "groups_parts cap n y k [] = []"
| "groups_parts cap n y k (g # gs) =
     group_parts cap y k g @ groups_parts cap n (y + group_height cap n k g) (Suc k) gs"

subsection \<open>The cap and the bars as the specification words them\<close>

text \<open>
  The cap as the specification words it, on an available height \<open>h\<close>: \<open>numBlocks\<close> is
  the number of non-empty blocks, and the cap is \<open>floor(spaceForRows / R / numBlocks)\<close>
  clamped to \<open>[Kmin, K]\<close>, or \<open>Kmin\<close> when \<open>spaceForRows \<le> 0\<close>, with \<open>R = 36\<close>,
  \<open>G = 32\<close>, \<open>\<Gamma> = 20\<close>, \<open>Kmin = 2\<close> and \<open>K = 5\<close>.
\<close>

definition spec_numBlocks :: "SvgSubDiscGroup list \<Rightarrow> int" where
  "spec_numBlocks groups = int (length (filter (\<lambda>g. svg_entries g \<noteq> []) groups))"

definition spec_dynamicCap :: "int \<Rightarrow> SvgSubDiscGroup list \<Rightarrow> int" where
  "spec_dynamicCap h groups =
     (let numBlocks = spec_numBlocks groups;
          spaceForRows = h - numBlocks * 32 - max 0 (numBlocks - 1) * 20
      in if spaceForRows \<le> 0 then 2
         else max 2 (min 5 \<lfloor>(of_int spaceForRows :: rat) / 36 / of_int numBlocks\<rfloor>))"

text \<open>
  The bar percentage as the specification words it, for a block whose first visible
  entry has \<open>localMax\<close> questions.
\<close>

definition spec_barWidthPct :: "int \<Rightarrow> int \<Rightarrow> rat" where
  "spec_barWidthPct localMax qc =
     (if localMax = 0 then 8 else max 8 (of_int qc / of_int localMax * 100))"

subsection \<open>Example data\<close>

text \<open>Example data: a record and an entry from ASCII names.\<close>

definition granular :: "string \<Rightarrow> string \<Rightarrow> string \<Rightarrow> int \<Rightarrow> string \<Rightarrow> int \<Rightarrow> GranularEntry" where
  "granular mo su co y ty n = \<lparr>m = js mo, sd = js su, c = js co, ey = y, et = js ty, cnt = n\<rparr>"

definition cours :: "string \<Rightarrow> string \<Rightarrow> string \<Rightarrow> int \<Rightarrow> int list \<Rightarrow> CoursEntry" where
  "cours mo su co n ys =
     \<lparr>module_name = js mo, sub_discipline = js su, cours_topic = js co, question_count = n,
      years_appeared = int (length ys), exam_years_list = ys\<rparr>"

text \<open>
  Records of two modules. \<open>Coeur\<close> occurs twice and sums to 5 questions, as many as
  \<open>Aorte\<close>, which occurs after it.
\<close>

definition example_records :: "GranularEntry list" where
  "example_records =
     [granular ''Cardio'' ''Physiologie'' ''Debit'' 2021 ''EMD1'' 4,
      granular ''Cardio'' ''Anatomie'' ''Coeur'' 2021 ''EMD1'' 3,
      granular ''Cardio'' ''Anatomie'' ''Aorte'' 2021 ''EMD2'' 5,
      granular ''Cardio'' ''Anatomie'' ''Coeur'' 2022 ''EMD1'' 2,
      granular ''Cardio'' ''Semiologie'' ''Souffle'' 2022 ''Rattrapage'' 1,
      granular ''Digestif'' ''Anatomie'' ''Foie'' 2022 ''EMD1'' 7]"

text \<open>
  Two records whose triples differ and whose keys coincide.
\<close>

definition colliding_records :: "GranularEntry list" where
  "colliding_records =
     [granular ''a|||b'' ''c'' ''t'' 2020 ''EMD1'' 1,
      granular ''a'' ''b|||c'' ''t'' 2021 ''EMD1'' 2]"

text \<open>A module name that ends in \<open>e\<close> with an acute accent, in its two spellings.\<close>

definition cafe_composed :: jsstring where
  "cafe_composed = js ''Caf'' @ [0xE9]"

definition cafe_decomposed :: jsstring where
  "cafe_decomposed = js ''Cafe'' @ [0x301]"

text \<open>
  Three records: two courses of one sub-discipline of the module in the composed
  spelling, with 1 and 9 questions, and between them a course of the module in the
  decomposed spelling. \<open>accented_entry\<close> is the entry that one such record gives.
\<close>

definition accented_records :: "GranularEntry list" where
  "accented_records =
     [\<lparr>m = cafe_composed, sd = js ''Anatomie'', c = js ''A'', ey = 2021, et = js ''EMD1'', cnt = 1\<rparr>,
      \<lparr>m = cafe_decomposed, sd = js ''Histologie'', c = js ''B'', ey = 2021, et = js ''EMD1'', cnt = 5\<rparr>,
      \<lparr>m = cafe_composed, sd = js ''Anatomie'', c = js ''C'', ey = 2021, et = js ''EMD1'', cnt = 9\<rparr>]"

definition accented_entry :: "jsstring \<Rightarrow> string \<Rightarrow> string \<Rightarrow> int \<Rightarrow> CoursEntry" where
  "accented_entry mo su co n =
     \<lparr>module_name = mo, sub_discipline = js su, cours_topic = js co, question_count = n,
      years_appeared = 1, exam_years_list = [2021]\<rparr>"

text \<open>Entries of one module in four sub-disciplines, two of them outside \<open>order\<close>.\<close>

definition example_entries :: "CoursEntry list" where
  "example_entries =
     [cours ''Cardio'' ''Zoologie'' ''t1'' 4 [2020], cours ''Cardio'' ''Biochimie'' ''t2'' 3 [2020],
      cours ''Cardio'' ''Anatomie'' ''t3'' 2 [2021], cours ''Digestif'' ''toString'' ''t4'' 9 [2021],
      cours ''Cardio'' ''Botanique'' ''t5'' 1 [2022]]"

text \<open>Example data: a group of \<open>k\<close> entries, each with 3 questions.\<close>

definition svg_group :: "string \<Rightarrow> nat \<Rightarrow> SvgSubDiscGroup" where
  "svg_group name k =
     \<lparr>svg_sub_discipline = js name,
      svg_entries = replicate k \<lparr>svg_cours_topic = js ''topic'', svg_question_count = 3\<rparr>\<rparr>"

text \<open>Options of an export with the given groups.\<close>

definition export_options :: "SvgSubDiscGroup list \<Rightarrow> SvgExportOptions" where
  "export_options groups =
     \<lparr>moduleName = js ''Cardio'', totalQuestions = 12, examYearsRange = js ''2020-2022'',
      totalExamYears = 3, subDiscGroups = groups\<rparr>"

text \<open>One block of five entries followed by three blocks without entries.\<close>

definition one_full_three_empty :: "SvgSubDiscGroup list" where
  "one_full_three_empty =
     [svg_group ''Anatomie'' 5, svg_group ''Histologie'' 0, svg_group ''Physiologie'' 0,
      svg_group ''Biochimie'' 0]"

text \<open>Four blocks of 6, 3, 1 and 2 entries.\<close>

definition four_groups :: "SvgSubDiscGroup list" where
  "four_groups =
     [svg_group ''Anatomie'' 6, svg_group ''Histologie'' 3, svg_group ''Physiologie'' 1,
      svg_group ''Biochimie'' 2]"

text \<open>A block ranked 6, 3, 0 and a block whose counts are all 0.\<close>

definition ranked_group :: SvgSubDiscGroup where
  "ranked_group =
     \<lparr>svg_sub_discipline = js ''Anatomie'',
      svg_entries =
        [\<lparr>svg_cours_topic = js ''Coeur'', svg_question_count = 6\<rparr>,
         \<lparr>svg_cours_topic = js ''Aorte'', svg_question_count = 3\<rparr>,
         \<lparr>svg_cours_topic = js ''Veines'', svg_question_count = 0\<rparr>]\<rparr>"

definition zero_group :: SvgSubDiscGroup where
  "zero_group =
     \<lparr>svg_sub_discipline = js ''Histologie'',
      svg_entries =
        [\<lparr>svg_cours_topic = js ''Epithelium'', svg_question_count = 0\<rparr>,
         \<lparr>svg_cours_topic = js ''Os'', svg_question_count = 0\<rparr>]\<rparr>"

text \<open>A label of 63 characters.\<close>

definition long_topic :: jsstring where
  "long_topic = js ''Vascularisation'' @ replicate 40 0x2D @ js ''du coeur''"


section \<open>Facts about sorting\<close>

lemma set_insort_cmp: "set (insort_cmp cmp x ys) = insert x (set ys)"
  by (induction ys) auto

lemma set_js_sort: "set (js_sort cmp xs) = set xs"
  by (induction xs) (simp_all add: js_sort_def set_insort_cmp)

lemma length_insort_cmp: "length (insort_cmp cmp x ys) = Suc (length ys)"
  by (induction ys) auto

lemma length_js_sort: "length (js_sort cmp xs) = length xs"
  by (induction xs) (simp_all add: js_sort_def length_insort_cmp)

lemma sum_list_insort_cmp:
  "sum_list (map f (insort_cmp cmp x ys)) = f x + sum_list (map f ys)"
  for f :: "'a \<Rightarrow> int"
  by (induction ys) auto

lemma sum_list_js_sort: "sum_list (map f (js_sort cmp xs)) = sum_list (map f xs)"
  for f :: "'a \<Rightarrow> int"
  by (induction xs) (simp_all add: js_sort_def sum_list_insort_cmp)

lemma distinct_insort_cmp: "distinct (insort_cmp cmp x ys) \<longleftrightarrow> x \<notin> set ys \<and> distinct ys"
  by (induction ys) (auto simp: set_insort_cmp)

lemma distinct_js_sort: "distinct (js_sort cmp xs) \<longleftrightarrow> distinct xs"
  by (induction xs) (simp_all add: js_sort_def distinct_insort_cmp set_js_sort[unfolded js_sort_def])

lemma filter_insort_cmp:
  "(\<And>y. y \<in> set ys \<Longrightarrow> P x \<Longrightarrow> P y \<Longrightarrow> cmp x y \<le> 0) \<Longrightarrow>
   filter P (insort_cmp cmp x ys) = (if P x then x # filter P ys else filter P ys)"
  by (induction ys) auto

lemma filter_js_sort:
  "(\<And>a b. a \<in> set xs \<Longrightarrow> b \<in> set xs \<Longrightarrow> P a \<Longrightarrow> P b \<Longrightarrow> cmp a b \<le> 0) \<Longrightarrow>
   filter P (js_sort cmp xs) = filter P xs"
proof (induction xs)
  case Nil
  then show ?case by (simp add: js_sort_def)
next
  case (Cons x xs)
  have IH: "filter P (js_sort cmp xs) = filter P xs"
    using Cons by simp
  have "filter P (insort_cmp cmp x (js_sort cmp xs)) =
        (if P x then x # filter P (js_sort cmp xs) else filter P (js_sort cmp xs))"
    by (rule filter_insort_cmp) (use Cons.prems in \<open>simp add: set_js_sort\<close>)
  then show ?case using IH by (simp add: js_sort_def)
qed

lemma sorted_insort_cmp:
  assumes "consistent_on cmp A" "x \<in> A" "set ys \<subseteq> A"
    and "sorted_wrt (\<lambda>a b. cmp a b \<le> 0) ys"
  shows "sorted_wrt (\<lambda>a b. cmp a b \<le> 0) (insort_cmp cmp x ys)"
  using assms(3,4)
proof (induction ys)
  case Nil
  then show ?case by simp
next
  case (Cons y ys)
  have yA: "y \<in> A" and ysA: "set ys \<subseteq> A"
    using Cons.prems(1) by simp_all
  have sy: "\<forall>z\<in>set ys. cmp y z \<le> 0" and sys: "sorted_wrt (\<lambda>a b. cmp a b \<le> 0) ys"
    using Cons.prems(2) by simp_all
  have trans: "cmp a b \<le> 0 \<Longrightarrow> cmp b d \<le> 0 \<Longrightarrow> cmp a d \<le> 0"
    if "a \<in> A" "b \<in> A" "d \<in> A" for a b d
    using assms(1) that unfolding consistent_on_def by blast
  show ?case
  proof (cases "cmp x y \<le> 0")
    case True
    have "\<forall>z\<in>set ys. cmp x z \<le> 0"
    proof
      fix z assume z: "z \<in> set ys"
      then have "z \<in> A" using ysA by blast
      from trans[OF assms(2) yA this True] sy z show "cmp x z \<le> 0" by blast
    qed
    with True sy sys show ?thesis by simp
  next
    case False
    have "cmp x y \<le> 0 \<or> cmp y x \<le> 0"
      using assms(1,2) yA unfolding consistent_on_def by blast
    with False have yx: "cmp y x \<le> 0" by blast
    have "sorted_wrt (\<lambda>a b. cmp a b \<le> 0) (insort_cmp cmp x ys)"
      using Cons.IH[OF ysA sys] .
    with False yx sy show ?thesis
      by (simp add: set_insort_cmp)
  qed
qed

lemma sorted_js_sort:
  assumes "consistent_on cmp A" "set xs \<subseteq> A"
  shows "sorted_wrt (\<lambda>a b. cmp a b \<le> 0) (js_sort cmp xs)"
  using assms(2)
proof (induction xs)
  case Nil
  then show ?case by (simp add: js_sort_def)
next
  case (Cons x xs)
  have "sorted_wrt (\<lambda>a b. cmp a b \<le> 0) (insort_cmp cmp x (js_sort cmp xs))"
    by (rule sorted_insort_cmp[OF assms(1)]) (use Cons in \<open>auto simp: set_js_sort\<close>)
  then show ?case by (simp add: js_sort_def)
qed

section \<open>Facts about the aggregation loop\<close>

lemma agg_step_alt:
  "agg_step A e =
     (if agg_key e \<in> fst ` set A then alist_update (agg_key e) (bump e) A
      else A @ [(agg_key e, bump e (fresh e))])"
proof -
  have "alist_update k f A = A" if "k \<notin> fst ` set A" for k and f :: "agg_item \<Rightarrow> agg_item"
    using that by (induction A) (auto simp: alist_update_def)
  then show ?thesis
    by (auto simp: agg_step_def Let_def bump_def fresh_def alist_update_def)
qed

lemma map_fst_alist_update: "map fst (alist_update k f al) = map fst al"
  by (induction al) (auto simp: alist_update_def)

lemma aggregate_snoc: "aggregate (xs @ [x]) = agg_step (aggregate xs) x"
  by (simp add: aggregate_def)

lemma aggregate_Nil: "aggregate [] = []"
  by (simp add: aggregate_def)

lemma map_fst_agg_step:
  "map fst (agg_step A e) =
     (if agg_key e \<in> fst ` set A then map fst A else map fst A @ [agg_key e])"
  by (simp add: agg_step_alt map_fst_alist_update)

lemma keys_agg_step: "fst ` set (agg_step A e) = insert (agg_key e) (fst ` set A)"
proof -
  have "set (map fst (agg_step A e)) = insert (agg_key e) (set (map fst A))"
    unfolding map_fst_agg_step by auto
  then show ?thesis by simp
qed

lemma keys_aggregate: "fst ` set (aggregate F) = agg_key ` set F"
  by (induction F rule: rev_induct) (simp_all add: aggregate_Nil aggregate_snoc keys_agg_step)

lemma distinct_keys_aggregate: "distinct (map fst (aggregate F))"
  by (induction F rule: rev_induct) (simp_all add: aggregate_Nil aggregate_snoc map_fst_agg_step)

lemma item_count_bump: "item_count (bump e v) = item_count v + cnt e"
  by (simp add: bump_def)

lemma item_triple_bump: "item_triple (bump e v) = item_triple v"
  by (simp add: bump_def item_triple_def)

lemma sum_count_alist_update:
  "distinct (map fst al) \<Longrightarrow> k \<in> fst ` set al \<Longrightarrow>
   sum_list (map (\<lambda>p. item_count (snd p)) (alist_update k (bump e) al)) =
   sum_list (map (\<lambda>p. item_count (snd p)) al) + cnt e"
proof (induction al)
  case Nil
  then show ?case by simp
next
  case (Cons p al)
  obtain k' v where p: "p = (k', v)" by (cases p)
  show ?case
  proof (cases "k' = k")
    case True
    with Cons.prems p have "k \<notin> fst ` set al" by auto
    then have "alist_update k (bump e) al = al"
      by (induction al) (auto simp: alist_update_def)
    then have "alist_update k (bump e) (p # al) = (k, bump e v) # al"
      using True p by (simp add: alist_update_def)
    then show ?thesis using p by (simp add: item_count_bump)
  next
    case False
    with Cons.prems p have "distinct (map fst al)" "k \<in> fst ` set al" by auto
    then have "sum_list (map (\<lambda>p. item_count (snd p)) (alist_update k (bump e) al)) =
        sum_list (map (\<lambda>p. item_count (snd p)) al) + cnt e" by (rule Cons.IH)
    moreover have "alist_update k (bump e) (p # al) = p # alist_update k (bump e) al"
      using False p by (simp add: alist_update_def)
    ultimately show ?thesis by simp
  qed
qed

lemma sum_count_aggregate:
  "sum_list (map (\<lambda>p. item_count (snd p)) (aggregate F)) = sum_list (map cnt F)"
proof (induction F rule: rev_induct)
  case Nil
  then show ?case by (simp add: aggregate_Nil)
next
  case (snoc x F)
  show ?case
  proof (cases "agg_key x \<in> fst ` set (aggregate F)")
    case True
    then show ?thesis
      using snoc sum_count_alist_update[OF distinct_keys_aggregate True, of x]
      by (simp add: aggregate_snoc agg_step_alt)
  next
    case False
    then show ?thesis using snoc
      by (simp add: aggregate_snoc agg_step_alt item_count_bump fresh_def)
  qed
qed

section \<open>Facts about the order of the aggregation\<close>

lemma length_takeWhile_less: "\<exists>x\<in>set xs. \<not> P x \<Longrightarrow> length (takeWhile P xs) < length xs"
  by (induction xs) auto

lemma first_pos_in:
  assumes "t \<in> triple ` set F"
  shows "first_pos t (F @ G) = first_pos t F" and "first_pos t F < length F"
proof -
  from assms obtain r where "r \<in> set F" "\<not> (triple r \<noteq> t)" by auto
  then show "first_pos t (F @ G) = first_pos t F"
    unfolding first_pos_def by (simp add: takeWhile_append1)
  show "first_pos t F < length F"
    unfolding first_pos_def using assms
    by (intro length_takeWhile_less) auto
qed

lemma first_pos_notin:
  assumes "t \<notin> triple ` set F"
  shows "first_pos t (F @ [x]) = (if triple x = t then length F else Suc (length F))"
proof -
  have "\<forall>r\<in>set F. triple r \<noteq> t" using assms by auto
  then have "takeWhile (\<lambda>r. triple r \<noteq> t) (F @ [x]) = F @ takeWhile (\<lambda>r. triple r \<noteq> t) [x]"
    by (simp add: takeWhile_append2)
  then show ?thesis by (simp add: first_pos_def)
qed

lemma alist_update_notin: "k \<notin> fst ` set al \<Longrightarrow> alist_update k f al = al"
  by (induction al) (auto simp: alist_update_def)

lemma triples_alist_update:
  "map (\<lambda>p. item_triple (snd p)) (alist_update k (bump e) al) = map (\<lambda>p. item_triple (snd p)) al"
  by (induction al) (auto simp: alist_update_def item_triple_bump)

lemma triples_agg_step:
  "map (\<lambda>p. item_triple (snd p)) (agg_step A e) =
     (if agg_key e \<in> fst ` set A then map (\<lambda>p. item_triple (snd p)) A
      else map (\<lambda>p. item_triple (snd p)) A @ [triple e])"
  by (simp add: agg_step_alt triples_alist_update item_triple_bump)
     (simp add: item_triple_def fresh_def triple_def)

lemma agg_key_triple: "triple r = triple r' \<Longrightarrow> agg_key r = agg_key r'"
  by (simp add: triple_def agg_key_def)

lemma triples_aggregate_subset:
  "set (map (\<lambda>p. item_triple (snd p)) (aggregate F)) \<subseteq> triple ` set F"
proof (induction F rule: rev_induct)
  case Nil
  then show ?case by (simp add: aggregate_Nil)
next
  case (snoc x F)
  then show ?case
    unfolding aggregate_snoc triples_agg_step by auto
qed

lemma first_occurrence_order:
  "sorted_wrt (\<lambda>s t. first_pos s F < first_pos t F) (map (\<lambda>p. item_triple (snd p)) (aggregate F))"
proof (induction F rule: rev_induct)
  case Nil
  then show ?case by (simp add: aggregate_Nil)
next
  case (snoc x F)
  let ?ts = "map (\<lambda>p. item_triple (snd p)) (aggregate F)"
  have sub: "set ?ts \<subseteq> triple ` set F" by (rule triples_aggregate_subset)
  have keep: "first_pos s (F @ [x]) = first_pos s F" if "s \<in> set ?ts" for s
  proof -
    from that sub have "s \<in> triple ` set F" by blast
    then show ?thesis by (rule first_pos_in(1))
  qed
  have old: "sorted_wrt (\<lambda>s t. first_pos s (F @ [x]) < first_pos t (F @ [x])) ?ts"
    by (rule sorted_wrt_mono_rel[OF _ snoc.IH]) (simp add: keep)
  show ?case
  proof (cases "agg_key x \<in> fst ` set (aggregate F)")
    case True
    then show ?thesis using old by (simp add: aggregate_snoc triples_agg_step)
  next
    case False
    then have nk: "agg_key x \<notin> agg_key ` set F" by (simp add: keys_aggregate)
    have nt: "triple x \<notin> triple ` set F"
    proof
      assume "triple x \<in> triple ` set F"
      then obtain r where r: "r \<in> set F" "triple x = triple r" by auto
      from r(2) have "agg_key x = agg_key r" by (rule agg_key_triple)
      with r(1) nk show False by auto
    qed
    have "first_pos s (F @ [x]) < first_pos (triple x) (F @ [x])" if "s \<in> set ?ts" for s
    proof -
      have "s \<in> triple ` set F" using that sub by blast
      then have "first_pos s (F @ [x]) = first_pos s F" "first_pos s F < length F"
        by (rule first_pos_in)+
      moreover have "first_pos (triple x) (F @ [x]) = length F"
        using first_pos_notin[OF nt, of x] by simp
      ultimately show ?thesis by simp
    qed
    with old False show ?thesis
      by (simp add: aggregate_snoc triples_agg_step sorted_wrt_append)
  qed
qed

lemma collation_strict_trans:
  assumes "consistent_collation lc" "distinguishes lc S" "a \<in> S" "d \<in> S"
    and "lc a b < 0" "lc b d < 0"
  shows "lc a d < 0"
proof -
  have le: "lc a d \<le> 0"
    using assms(1,5,6) unfolding consistent_collation_def
    by (meson less_imp_le)
  show ?thesis
  proof (rule ccontr)
    assume "\<not> lc a d < 0"
    with le have "lc a d = 0" by simp
    with assms(2,3,4) have "a = d" unfolding distinguishes_def by blast
    with assms(6) have "lc b a < 0" by simp
    then have "0 < lc a b" using assms(1) unfolding consistent_collation_def by blast
    with assms(5) show False by simp
  qed
qed

lemma compareCours_le_iff:
  assumes "consistent_collation lc" "distinguishes lc S"
    and "module_name x \<in> S" "module_name y \<in> S" "sub_discipline x \<in> S" "sub_discipline y \<in> S"
  shows "(compareCours lc x y \<le> 0) = cours_before lc x y"
proof -
  have refl: "lc a a = 0" for a
    using assms(1) unfolding consistent_collation_def by blast
  have ne: "lc a b \<noteq> 0" if "a \<in> S" "b \<in> S" "a \<noteq> b" for a b
    using assms(2) that unfolding distinguishes_def by blast
  show ?thesis
  proof (cases "module_name x = module_name y")
    case False
    with ne[OF assms(3,4)] show ?thesis
      by (simp add: compareCours_def cours_before_def less_le)
  next
    case True
    show ?thesis
    proof (cases "sub_discipline x = sub_discipline y")
      case False
      with True ne[OF assms(5,6)] refl show ?thesis
        by (simp add: compareCours_def cours_before_def less_le)
    next
      case sdeq: True
      with True refl show ?thesis
        by (simp add: compareCours_def cours_before_def)
    qed
  qed
qed

lemma cours_before_trans:
  assumes lc: "consistent_collation lc" "distinguishes lc S"
    and x: "module_name x \<in> S" "sub_discipline x \<in> S"
    and z: "module_name z \<in> S" "sub_discipline z \<in> S"
    and xy: "cours_before lc x y" and yz: "cours_before lc y z"
  shows "cours_before lc x z"
proof -
  note st = collation_strict_trans[OF lc]
  consider (lt) "lc (module_name x) (module_name y) < 0 \<or> lc (module_name y) (module_name z) < 0"
    | (eq) "module_name x = module_name y" "module_name y = module_name z"
      "\<not> lc (module_name x) (module_name y) < 0" "\<not> lc (module_name y) (module_name z) < 0"
    using xy yz unfolding cours_before_def by blast
  then show ?thesis
  proof cases
    case lt
    have "lc (module_name x) (module_name z) < 0"
    proof (cases "lc (module_name x) (module_name y) < 0")
      case True
      show ?thesis
      proof (cases "lc (module_name y) (module_name z) < 0")
        case True
        with \<open>lc (module_name x) (module_name y) < 0\<close> show ?thesis
          by (rule st[OF x(1) z(1)])
      next
        case False
        with yz have "module_name y = module_name z" unfolding cours_before_def by blast
        with True show ?thesis by simp
      qed
    next
      case False
      with xy have "module_name x = module_name y" unfolding cours_before_def by blast
      with lt False show ?thesis by simp
    qed
    then show ?thesis unfolding cours_before_def by blast
  next
    case eq
    from eq xy have xy': "lc (sub_discipline x) (sub_discipline y) < 0 \<or>
        (sub_discipline x = sub_discipline y \<and> question_count y \<le> question_count x)"
      unfolding cours_before_def by blast
    from eq yz have yz': "lc (sub_discipline y) (sub_discipline z) < 0 \<or>
        (sub_discipline y = sub_discipline z \<and> question_count z \<le> question_count y)"
      unfolding cours_before_def by blast
    have "lc (sub_discipline x) (sub_discipline z) < 0 \<or>
        (sub_discipline x = sub_discipline z \<and> question_count z \<le> question_count x)"
    proof (cases "lc (sub_discipline x) (sub_discipline y) < 0")
      case True
      show ?thesis
      proof (cases "lc (sub_discipline y) (sub_discipline z) < 0")
        case True
        with \<open>lc (sub_discipline x) (sub_discipline y) < 0\<close>
        have "lc (sub_discipline x) (sub_discipline z) < 0"
          by (rule st[OF x(2) z(2)])
        then show ?thesis by blast
      next
        case False
        with yz' have "sub_discipline y = sub_discipline z" by blast
        with True show ?thesis by simp
      qed
    next
      case False
      with xy' have e: "sub_discipline x = sub_discipline y" "question_count y \<le> question_count x"
        by blast+
      from yz' show ?thesis
      proof
        assume "lc (sub_discipline y) (sub_discipline z) < 0"
        with e show ?thesis by simp
      next
        assume "sub_discipline y = sub_discipline z \<and> question_count z \<le> question_count y"
        with e show ?thesis by simp
      qed
    qed
    with eq show ?thesis unfolding cours_before_def by simp
  qed
qed

lemma compareCours_total:
  assumes "consistent_collation lc"
  shows "compareCours lc x y \<le> 0 \<or> compareCours lc y x \<le> 0"
proof -
  have t: "lc a b \<le> 0 \<or> lc b a \<le> 0" for a b
  proof (cases "lc a b \<le> 0")
    case False
    then have "0 < lc a b" by simp
    then have "lc b a < 0" using assms unfolding consistent_collation_def by blast
    then show ?thesis by simp
  qed simp
  show ?thesis
    using t[of "module_name x" "module_name y"] t[of "sub_discipline x" "sub_discipline y"]
    by (auto simp: compareCours_def)
qed

lemma consistent_compareCours:
  assumes "consistent_collation lc" "distinguishes lc S"
  shows "consistent_on (compareCours lc) (named_in S)"
  unfolding consistent_on_def
proof (intro conjI ballI impI)
  fix a b
  show "compareCours lc a b \<le> 0 \<or> compareCours lc b a \<le> 0"
    by (rule compareCours_total[OF assms(1)])
next
  fix a b d
  assume m: "a \<in> named_in S" "b \<in> named_in S" "d \<in> named_in S"
    and ab: "compareCours lc a b \<le> 0" and bd: "compareCours lc b d \<le> 0"
  from m have n: "module_name a \<in> S" "sub_discipline a \<in> S" "module_name b \<in> S"
    "sub_discipline b \<in> S" "module_name d \<in> S" "sub_discipline d \<in> S"
    by (simp_all add: named_in_def)
  have "cours_before lc a b" using ab compareCours_le_iff[OF assms n(1,3,2,4)] by simp
  moreover have "cours_before lc b d" using bd compareCours_le_iff[OF assms n(3,5,4,6)] by simp
  ultimately have "cours_before lc a d"
    by (rule cours_before_trans[OF assms n(1,2,5,6)])
  then show "compareCours lc a d \<le> 0"
    using compareCours_le_iff[OF assms n(1,5,2,6)] by simp
qed

lemma cours_triple_toCoursEntry: "cours_triple (toCoursEntry v) = item_triple v"
  by (simp add: cours_triple_def toCoursEntry_def item_triple_def)

lemma filteredData_alt:
  "filteredData lc raw tys yrs = js_sort (compareCours lc) (unsorted (filter (matches tys yrs) raw))"
  by (cases raw) (simp_all add: filteredData_def unsorted_def Let_def aggregate_Nil js_sort_def)

lemma triples_unsorted: "cours_triple ` set (unsorted F) \<subseteq> triple ` set F"
proof -
  have "map cours_triple (unsorted F) = map (\<lambda>p. item_triple (snd p)) (aggregate F)"
    by (simp add: unsorted_def cours_triple_toCoursEntry o_def)
  then have "set (map cours_triple (unsorted F)) \<subseteq> triple ` set F"
    using triples_aggregate_subset[of F] by simp
  then show ?thesis by simp
qed

lemma unsorted_named_in: "set (unsorted F) \<subseteq> named_in (m ` set F \<union> sd ` set F)"
proof
  fix d assume "d \<in> set (unsorted F)"
  then have "cours_triple d \<in> triple ` set F" using triples_unsorted by blast
  then obtain r where "r \<in> set F" "cours_triple d = triple r" by auto
  then show "d \<in> named_in (m ` set F \<union> sd ` set F)"
    by (auto simp: named_in_def cours_triple_def triple_def)
qed

lemma unsorted_first_occurrence:
  "sorted_wrt (\<lambda>a b. first_pos (cours_triple a) F < first_pos (cours_triple b) F) (unsorted F)"
proof -
  have "map cours_triple (unsorted F) = map (\<lambda>p. item_triple (snd p)) (aggregate F)"
    by (simp add: unsorted_def cours_triple_toCoursEntry o_def)
  then have "sorted_wrt (\<lambda>s t. first_pos s F < first_pos t F) (map cours_triple (unsorted F))"
    using first_occurrence_order[of F] by simp
  then show ?thesis by (simp add: sorted_wrt_map)
qed

lemma filteredData_sorted:
  assumes "consistent_collation lc"
    and "distinguishes lc (m ` set (filter (matches tys yrs) raw) \<union> sd ` set (filter (matches tys yrs) raw))"
  shows "sorted_wrt (cours_before lc) (filteredData lc raw tys yrs)"
proof -
  let ?F = "filter (matches tys yrs) raw"
  let ?S = "m ` set ?F \<union> sd ` set ?F"
  have s: "sorted_wrt (\<lambda>a b. compareCours lc a b \<le> 0) (filteredData lc raw tys yrs)"
    unfolding filteredData_alt
    by (rule sorted_js_sort[OF consistent_compareCours[OF assms] unsorted_named_in])
  have mem: "set (filteredData lc raw tys yrs) \<subseteq> named_in ?S"
    unfolding filteredData_alt set_js_sort by (rule unsorted_named_in)
  show ?thesis
  proof (rule sorted_wrt_mono_rel[OF _ s])
    fix x y
    assume "x \<in> set (filteredData lc raw tys yrs)" "y \<in> set (filteredData lc raw tys yrs)"
      and le: "compareCours lc x y \<le> 0"
    with mem have "x \<in> named_in ?S" "y \<in> named_in ?S" by blast+
    then have "(compareCours lc x y \<le> 0) = cours_before lc x y"
      by (intro compareCours_le_iff[OF assms]) (simp_all add: named_in_def)
    with le show "cours_before lc x y" by simp
  qed
qed

lemma filteredData_ties:
  "filter (same_rank mo su n) (filteredData lc raw tys yrs) =
   filter (same_rank mo su n) (unsorted (filter (matches tys yrs) raw))"
  unfolding filteredData_alt
  by (rule filter_js_sort) (simp add: same_rank_def compareCours_def)

lemma filteredData_tie_order:
  "sorted_wrt (\<lambda>a b. first_pos (cours_triple a) (filter (matches tys yrs) raw)
                     < first_pos (cours_triple b) (filter (matches tys yrs) raw))
     (filter (same_rank mo su n) (filteredData lc raw tys yrs))"
  unfolding filteredData_ties
  by (rule sorted_wrt_filter) (rule unsorted_first_occurrence)

section \<open>Facts about the grouping loop\<close>

lemma set_alist_update:
  "set (alist_update k f al) = (\<lambda>(k', v). if k' = k then (k', f v) else (k', v)) ` set al"
  by (simp add: alist_update_def)

lemma alist_update_append:
  "alist_update k f (xs @ ys) = alist_update k f xs @ alist_update k f ys"
  by (simp add: alist_update_def)

lemma filter_key_empty: "k \<notin> f ` set p \<Longrightarrow> filter (\<lambda>d. f d = k) p = []"
  by (induction p) auto

lemma group_step_err:
  "sub_discipline d \<in> set object_prototype_names \<Longrightarrow> group_step groups d = Inl TypeError"
  by (simp add: group_step_def)

lemma group_step_ok:
  "sub_discipline d \<notin> set object_prototype_names \<Longrightarrow>
   group_step groups d =
     Inr (if sub_discipline d \<in> fst ` set groups
          then alist_update (sub_discipline d) (\<lambda>es. es @ [d]) groups
          else groups @ [(sub_discipline d, [d])])"
  by (simp add: group_step_def Let_def alist_update_append alist_update_notin)
     (simp add: alist_update_def)

lemma grouped_step:
  assumes "grouped p groups" "sub_discipline d \<notin> set object_prototype_names"
  shows "\<exists>groups'. group_step groups d = Inr groups' \<and> grouped (p @ [d]) groups'"
proof (cases "sub_discipline d \<in> fst ` set groups")
  case True
  let ?k = "sub_discipline d"
  let ?g = "alist_update ?k (\<lambda>es. es @ [d]) groups"
  have 1: "distinct (map fst ?g)"
    using assms(1) by (simp add: grouped_def map_fst_alist_update)
  have "set (map fst ?g) = set (map fst groups)" by (simp only: map_fst_alist_update)
  then have 2: "fst ` set ?g = sub_discipline ` set (p @ [d])"
    using assms(1) True by (auto simp: grouped_def)
  have 3: "\<forall>(k, es)\<in>set ?g. es = filter (\<lambda>d. sub_discipline d = k) (p @ [d])"
    using assms(1) by (fastforce simp: grouped_def set_alist_update split: if_splits)
  from 1 2 3 True show ?thesis
    by (simp add: group_step_ok[OF assms(2)] grouped_def)
next
  case False
  let ?k = "sub_discipline d"
  let ?g = "groups @ [(?k, [d])]"
  from False assms(1) have nk: "?k \<notin> sub_discipline ` set p" by (simp add: grouped_def)
  then have e: "filter (\<lambda>d'. sub_discipline d' = ?k) p = []"
    by (rule filter_key_empty)
  have 1: "distinct (map fst ?g)" using assms(1) False by (simp add: grouped_def)
  have 2: "fst ` set ?g = sub_discipline ` set (p @ [d])"
    using assms(1) by (auto simp: grouped_def)
  have 3: "\<forall>(k, es)\<in>set ?g. es = filter (\<lambda>d. sub_discipline d = k) (p @ [d])"
  proof (clarify)
    fix k es assume "(k, es) \<in> set ?g"
    then consider (old) "(k, es) \<in> set groups" | (new) "k = ?k" "es = [d]" by auto
    then show "es = filter (\<lambda>d. sub_discipline d = k) (p @ [d])"
    proof cases
      case old
      then have "es = filter (\<lambda>d. sub_discipline d = k) p"
        using assms(1) unfolding grouped_def by blast
      moreover from old have "k \<in> fst ` set groups" by force
      with False have "k \<noteq> ?k" by blast
      ultimately show ?thesis by simp
    next
      case new
      with e show ?thesis by simp
    qed
  qed
  from 1 2 3 False show ?thesis
    by (simp add: group_step_ok[OF assms(2)] grouped_def)
qed

lemma group_loop_ok:
  assumes "grouped p groups" "\<forall>d\<in>set ds. sub_discipline d \<notin> set object_prototype_names"
  shows "\<exists>groups'. group_loop groups ds = Inr groups' \<and> grouped (p @ ds) groups'"
  using assms
proof (induction ds arbitrary: p groups)
  case Nil
  then show ?case by simp
next
  case (Cons d ds)
  from grouped_step[OF Cons.prems(1)] Cons.prems(2)
  obtain g1 where g1: "group_step groups d = Inr g1" "grouped (p @ [d]) g1" by auto
  from Cons.IH[OF g1(2)] Cons.prems(2)
  obtain g2 where "group_loop g1 ds = Inr g2" "grouped ((p @ [d]) @ ds) g2" by auto
  with g1(1) show ?case by simp
qed

lemma group_loop_err:
  "\<exists>d\<in>set ds. sub_discipline d \<in> set object_prototype_names \<Longrightarrow>
   group_loop groups ds = Inl TypeError"
proof (induction ds arbitrary: groups)
  case Nil
  then show ?case by simp
next
  case (Cons d ds)
  show ?case
  proof (cases "sub_discipline d \<in> set object_prototype_names")
    case True
    then show ?thesis by (simp add: group_step_err)
  next
    case False
    with Cons.prems have "\<exists>d\<in>set ds. sub_discipline d \<in> set object_prototype_names" by simp
    then show ?thesis using Cons.IH False by (simp add: group_step_ok)
  qed
qed

lemma grouped_Nil: "grouped [] []"
  by (simp add: grouped_def)

lemma group_loop_grouped:
  assumes "\<forall>d\<in>set ds. sub_discipline d \<notin> set object_prototype_names"
  shows "\<exists>groups. group_loop [] ds = Inr groups \<and> grouped ds groups"
  using group_loop_ok[OF grouped_Nil assms] by simp

lemma group_loop_Inr:
  assumes "group_loop [] ds = Inr groups"
  shows "grouped ds groups"
proof -
  have "\<forall>d\<in>set ds. sub_discipline d \<notin> set object_prototype_names"
    using assms group_loop_err[of ds "[]"] by auto
  from group_loop_grouped[OF this] assms show ?thesis by simp
qed

subsection \<open>Object.entries\<close>



lemma set_object_entries: "set (object_entries obj) = set obj"
  by (auto simp: object_entries_def set_js_sort)


section \<open>Facts about the order of sub-disciplines\<close>









lemma set_blocks_of: "set (blocks_of lc groups) = set groups"
  by (simp add: blocks_of_def set_js_sort set_object_entries)



lemma groupedBySubDisc_ok:
  assumes "\<forall>d\<in>set fbm. sub_discipline d \<notin> set object_prototype_names"
  shows "\<exists>groups. groupedBySubDisc lc fbm = Inr (blocks_of lc groups) \<and> grouped fbm groups"
proof -
  from group_loop_grouped[OF assms] obtain groups
    where "group_loop [] fbm = Inr groups" "grouped fbm groups" by blast
  then show ?thesis by (auto simp: groupedBySubDisc_def blocks_of_def)
qed

lemma groupedBySubDisc_err:
  assumes "\<exists>d\<in>set fbm. sub_discipline d \<in> set object_prototype_names"
  shows "groupedBySubDisc lc fbm = Inl TypeError"
  by (simp add: groupedBySubDisc_def group_loop_err[OF assms])

section \<open>Facts about the code-unit collation and the export options\<close>

lemma codeunit_compare_refl: "codeunit_compare a a = 0"
  by (induction a) auto

lemma codeunit_compare_eq: "codeunit_compare a b = 0 \<Longrightarrow> a = b"
  by (induction a b rule: codeunit_compare.induct) (auto split: if_splits)

lemma codeunit_compare_anti: "(codeunit_compare a b < 0) = (0 < codeunit_compare b a)"
  by (induction a b rule: codeunit_compare.induct) auto

lemma codeunit_compare_trans:
  "codeunit_compare a b \<le> 0 \<Longrightarrow> codeunit_compare b d \<le> 0 \<Longrightarrow> codeunit_compare a d \<le> 0"
proof (induction a b arbitrary: d rule: codeunit_compare.induct)
  case 1
  then show ?case by simp
next
  case (2 y ys)
  then show ?case by (cases d) auto
next
  case (3 x xs)
  then show ?case by simp
next
  case (4 x xs y ys)
  show ?case
  proof (cases d)
    case Nil
    with 4 show ?thesis by simp
  next
    case (Cons z zs)
    show ?thesis
    proof (cases "x < y")
      case True
      with 4(3) Cons have "x < z" by (auto split: if_splits)
      then show ?thesis using Cons by simp
    next
      case False
      with 4(2) have xy: "x = y" "codeunit_compare xs ys \<le> 0" by (auto split: if_splits)
      show ?thesis
      proof (cases "y < z")
        case True
        with xy Cons show ?thesis by simp
      next
        case nz: False
        with 4(3) Cons have yz: "y = z" "codeunit_compare ys zs \<le> 0" by (auto split: if_splits)
        from 4(1)[OF False _ xy(2) yz(2)] xy(1) have "codeunit_compare xs zs \<le> 0" by simp
        with xy yz Cons show ?thesis by simp
      qed
    qed
  qed
qed

lemma consistent_codeunit_compare: "consistent_collation codeunit_compare"
  unfolding consistent_collation_def
  using codeunit_compare_refl codeunit_compare_anti codeunit_compare_trans by blast

lemma distinguishes_codeunit_compare: "distinguishes codeunit_compare S"
  unfolding distinguishes_def using codeunit_compare_eq by blast

lemma buildSvgDataForModule_ok:
  assumes "\<forall>d\<in>set fd. module_name d = mo \<longrightarrow> sub_discipline d \<notin> set object_prototype_names"
  shows "\<exists>groups modEntries.
           buildSvgDataForModule lc fd eyRange eyTotal mo allowed =
             Inr \<lparr>moduleName = mo,
                  totalQuestions = foldl (\<lambda>sum e. sum + question_count e) 0 modEntries,
                  examYearsRange = eyRange, totalExamYears = eyTotal,
                  subDiscGroups =
                    map (\<lambda>(subDisc, entries).
                           \<lparr>svg_sub_discipline = subDisc,
                            svg_entries =
                              map (\<lambda>e. \<lparr>svg_cours_topic = cours_topic e,
                                          svg_question_count = question_count e\<rparr>) entries\<rparr>)
                        (blocks_of lc groups)\<rparr>
           \<and> grouped modEntries groups \<and> set modEntries \<subseteq> {d \<in> set fd. module_name d = mo}"
proof -
  define modEntries0 where "modEntries0 = filter (\<lambda>d. module_name d = mo) fd"
  define modEntries where "modEntries =
            (case allowed of
               Some al \<Rightarrow>
                 if length al > 0
                 then filter (\<lambda>d. sub_discipline d \<in> set al) modEntries0
                 else modEntries0
             | None \<Rightarrow> modEntries0)"
  have sub: "set modEntries \<subseteq> {d \<in> set fd. module_name d = mo}"
    by (auto simp: modEntries_def modEntries0_def split: option.splits)
  with assms have "\<forall>d\<in>set modEntries. sub_discipline d \<notin> set object_prototype_names"
    by blast
  from group_loop_grouped[OF this] obtain groups
    where g: "group_loop [] modEntries = Inr groups" "grouped modEntries groups" by blast
  have "buildSvgDataForModule lc fd eyRange eyTotal mo allowed =
             Inr \<lparr>moduleName = mo,
                  totalQuestions = foldl (\<lambda>sum e. sum + question_count e) 0 modEntries,
                  examYearsRange = eyRange, totalExamYears = eyTotal,
                  subDiscGroups =
                    map (\<lambda>(subDisc, entries).
                           \<lparr>svg_sub_discipline = subDisc,
                            svg_entries =
                              map (\<lambda>e. \<lparr>svg_cours_topic = cours_topic e,
                                          svg_question_count = question_count e\<rparr>) entries\<rparr>)
                        (blocks_of lc groups)\<rparr>"
    using g(1) unfolding buildSvgDataForModule_def blocks_of_def Let_def
      modEntries_def[symmetric, unfolded modEntries0_def] 
    by simp
  with g(2) sub show ?thesis by blast
qed


section \<open>Facts about the order of the output\<close>

lemma sorted_wrt_classes:
  "(\<And>k. sorted_wrt Q (filter (\<lambda>x. f x = k) xs)) \<Longrightarrow>
   sorted_wrt (\<lambda>a b. f a = f b \<longrightarrow> Q a b) xs"
proof (induction xs)
  case Nil
  then show ?case by simp
next
  case (Cons x xs)
  have "sorted_wrt Q (filter (\<lambda>y. f y = k) xs)" for k
    using Cons.prems[of k] by (cases "f x = k") simp_all
  then have tl: "sorted_wrt (\<lambda>a b. f a = f b \<longrightarrow> Q a b) xs" by (rule Cons.IH)
  have "\<forall>y\<in>set xs. f x = f y \<longrightarrow> Q x y"
    using Cons.prems[of "f x"] by auto
  with tl show ?case by simp
qed

lemma sorted_wrt_conj:
  "sorted_wrt P xs \<Longrightarrow> sorted_wrt Q xs \<Longrightarrow> sorted_wrt (\<lambda>a b. P a b \<and> Q a b) xs"
  by (induction xs) auto

lemma filteredData_order:
  assumes "consistent_collation lc"
    and "distinguishes lc (m ` set (filter (matches tys yrs) raw) \<union> sd ` set (filter (matches tys yrs) raw))"
  shows "sorted_wrt (agg_before lc (filter (matches tys yrs) raw)) (filteredData lc raw tys yrs)"
proof -
  let ?F = "filter (matches tys yrs) raw"
  let ?out = "filteredData lc raw tys yrs"
  let ?f = "\<lambda>d. (module_name d, sub_discipline d, question_count d)"
  let ?Q = "\<lambda>a b. first_pos (cours_triple a) ?F < first_pos (cours_triple b) ?F"
  have "sorted_wrt ?Q (filter (\<lambda>d. ?f d = k) ?out)" for k
  proof -
    obtain mo su n where k: "k = (mo, su, n)" by (cases k)
    have "(\<lambda>d. ?f d = k) = same_rank mo su n"
      by (auto simp: k same_rank_def fun_eq_iff)
    then show ?thesis using filteredData_tie_order[of tys yrs raw mo su n lc] by simp
  qed
  then have "sorted_wrt (\<lambda>a b. ?f a = ?f b \<longrightarrow> ?Q a b) ?out" by (rule sorted_wrt_classes)
  with filteredData_sorted[OF assms]
  have "sorted_wrt (\<lambda>a b. cours_before lc a b \<and> (?f a = ?f b \<longrightarrow> ?Q a b)) ?out"
    by (rule sorted_wrt_conj)
  then show ?thesis
  proof (rule sorted_wrt_mono_rel[rotated])
    fix a b
    assume "cours_before lc a b \<and> (?f a = ?f b \<longrightarrow> ?Q a b)"
    then show "agg_before lc ?F a b"
      by (auto simp: cours_before_def agg_before_def ranked_before_def)
  qed
qed

lemma filteredData_names:
  assumes "d \<in> set (filteredData lc raw tys yrs)"
  shows "\<exists>r\<in>set (filter (matches tys yrs) raw). cours_triple d = triple r"
proof -
  from assms have "d \<in> set (unsorted (filter (matches tys yrs) raw))"
    by (simp add: filteredData_alt set_js_sort)
  then have "cours_triple d \<in> triple ` set (filter (matches tys yrs) raw)"
    using triples_unsorted by blast
  then show ?thesis by auto
qed

lemma block_ranked:
  assumes "consistent_collation lc"
    and "sorted_wrt (agg_before lc F) out"
  shows "sorted_wrt (ranked_before F)
           (filter (\<lambda>d. sub_discipline d = su) (filter (\<lambda>d. module_name d = mo) out))"
proof -
  have refl: "lc a a = 0" for a
    using assms(1) unfolding consistent_collation_def by blast
  have "sorted_wrt (agg_before lc F)
          (filter (\<lambda>d. sub_discipline d = su) (filter (\<lambda>d. module_name d = mo) out))"
    by (intro sorted_wrt_filter assms(2))
  then show ?thesis
  proof (rule sorted_wrt_mono_rel[rotated])
    fix a b
    assume "a \<in> set (filter (\<lambda>d. sub_discipline d = su) (filter (\<lambda>d. module_name d = mo) out))"
      "b \<in> set (filter (\<lambda>d. sub_discipline d = su) (filter (\<lambda>d. module_name d = mo) out))"
      "agg_before lc F a b"
    then show "ranked_before F a b"
      using refl by (auto simp: agg_before_def)
  qed
qed

section \<open>Facts about the rendering loops\<close>

lemma render_row_parts:
  "render_row accent gi mq (y, ps) (idx, e) = (y + courseRowH, ps @ row_parts accent gi mq y idx e)"
  by (simp add: render_row_def row_parts_def Let_def)

lemma foldl_render_row:
  "foldl (render_row accent gi mq) (y, ps) (enumerate k es) =
     (y + courseRowH * int (length es), ps @ rows_parts accent gi mq y k es)"
proof (induction es arbitrary: y ps k)
  case Nil
  then show ?case by simp
next
  case (Cons e es)
  show ?case
    by (simp add: render_row_parts Cons.IH algebra_simps)
qed

lemma render_group_parts:
  "render_group cap n (y, ps) (gi, g) = (y + group_height cap n gi g, ps @ group_parts cap y gi g)"
  by (simp add: render_group_def Let_def foldl_render_row group_parts_def group_height_def)

lemma foldl_render_group:
  "foldl (render_group cap n) (y, ps) (enumerate k gs) =
     (y + sum_list (map (\<lambda>(i, g). group_height cap n i g) (enumerate k gs)),
      ps @ groups_parts cap n y k gs)"
proof (induction gs arbitrary: y ps k)
  case Nil
  then show ?case by simp
next
  case (Cons g gs)
  show ?case
    by (simp add: render_group_parts Cons.IH algebra_simps)
qed

lemma render_groups_parts:
  "render_groups gs =
     (body_y0 + sum_list (map (\<lambda>(i, g). group_height (effectiveMax gs) (int (length gs)) i g)
                            (enumerate 0 gs)),
      groups_parts (effectiveMax gs) (int (length gs)) body_y0 0 gs)"
  by (simp add: render_groups_def foldl_render_group)

lemma doc_body_parts:
  "doc_body (generateTendanceSVG opts) =
     groups_parts (effectiveMax (subDiscGroups opts)) (int (length (subDiscGroups opts)))
       body_y0 0 (subDiscGroups opts)"
  by (simp add: generateTendanceSVG_def render_groups_parts)

subsection \<open>Readings of the parts\<close>

lemma course_label_rows:
  "concat (map course_label (rows_parts accent gi mq y k es)) =
     map (\<lambda>e. esc (truncateText (svg_cours_topic e) 50)) es"
  by (induction es arbitrary: y k) (simp_all add: row_parts_def)


lemma header_info_rows: "concat (map header_info (rows_parts accent gi mq y k es)) = []"
  by (induction es arbitrary: y k) (simp_all add: row_parts_def)

lemma bar_width_rows:
  "concat (map bar_width (rows_parts accent gi mq y k es)) =
     map (\<lambda>e. js_round (of_int (contentW - 80) * (barPct (svg_question_count e) mq / 100))) es"
  by (induction es arbitrary: y k) (simp_all add: row_parts_def)

lemma course_label_groups:
  "concat (map course_label (groups_parts cap n y k gs)) =
     concat (map (\<lambda>g. map (\<lambda>e. esc (truncateText (svg_cours_topic e) 50))
                         (slice0 (svg_entries g) cap)) gs)"
  by (induction gs arbitrary: y k) (simp_all add: group_parts_def course_label_rows)


lemma header_info_groups:
  "concat (map header_info (groups_parts cap n y k gs)) =
     map (\<lambda>g. (esc (svg_sub_discipline g), int (length (slice0 (svg_entries g) cap)))) gs"
  by (induction gs arbitrary: y k) (simp_all add: group_parts_def header_info_rows)

lemma bar_width_groups:
  "concat (map bar_width (groups_parts cap n y k gs)) =
     concat (map (\<lambda>g. map (\<lambda>e. js_round (of_int (contentW - 80)
                                 * (barPct (svg_question_count e) (maxQ (slice0 (svg_entries g) cap)) / 100)))
                         (slice0 (svg_entries g) cap)) gs)"
  by (induction gs arbitrary: y k) (simp_all add: group_parts_def bar_width_rows)

section \<open>Facts about the cap\<close>

lemma foldl_add: "foldl (\<lambda>sum g. sum + f g) a gs = a + sum_list (map f gs)"
  for a :: int
  by (induction gs arbitrary: a) simp_all

lemma totalCourseSlots_sum:
  "totalCourseSlots gs = sum_list (map (\<lambda>g. min (int (length (svg_entries g))) MAX_COURSES) gs)"
  by (simp add: totalCourseSlots_def foldl_add)

lemma totalCourseSlots_pos: "(0 < totalCourseSlots gs) = (\<exists>g\<in>set gs. svg_entries g \<noteq> [])"
proof -
  have "0 \<le> sum_list (map (\<lambda>g. min (int (length (svg_entries g))) MAX_COURSES) gs)"
    by (rule sum_list_nonneg) (auto simp: MAX_COURSES_def)
  have "(0 < sum_list (map (\<lambda>g. min (int (length (svg_entries g))) MAX_COURSES) gs)) =
        (\<exists>g\<in>set gs. svg_entries g \<noteq> [])"
  proof (induction gs)
    case Nil
    then show ?case by simp
  next
    case (Cons g gs)
    have nn: "0 \<le> sum_list (map (\<lambda>g. min (int (length (svg_entries g))) MAX_COURSES) gs)"
      by (rule sum_list_nonneg) (auto simp: MAX_COURSES_def)
    have "(0 < min (int (length (svg_entries g))) MAX_COURSES) = (svg_entries g \<noteq> [])"
      by (simp add: MAX_COURSES_def)
    moreover have "0 \<le> min (int (length (svg_entries g))) MAX_COURSES"
      by (simp add: MAX_COURSES_def)
    ultimately show ?case using Cons nn by auto
  qed
  then show ?thesis by (simp add: totalCourseSlots_sum)
qed

lemma floor_quotient:
  assumes "0 < n"
  shows "\<lfloor>(of_int s :: rat) / of_int k / of_int n\<rfloor> = s div (k * n)"
proof -
  have "(of_int s :: rat) / of_int k / of_int n = of_int s / of_int (k * n)" by simp
  then show ?thesis by (simp only: floor_divide_of_int_eq)
qed

lemma effectiveMax_some:
  assumes "\<exists>g\<in>set gs. svg_entries g \<noteq> []"
  shows "effectiveMax gs =
           min 5 (max 2 \<lfloor>(of_int (spaceForCourses gs) :: rat) / 36 / of_int (numGroups gs)\<rfloor>)"
  using assms
  by (simp add: effectiveMax_def dynamicMaxCourses_def totalCourseSlots_pos MAX_COURSES_def
      courseRowH_def)

lemma effectiveMax_none:
  assumes "\<forall>g\<in>set gs. svg_entries g = []"
  shows "effectiveMax gs = 5"
proof -
  from assms have "\<not> 0 < totalCourseSlots gs" by (simp add: totalCourseSlots_pos)
  then show ?thesis by (simp add: effectiveMax_def dynamicMaxCourses_def MAX_COURSES_def)
qed

lemma effectiveMax_range: "2 \<le> effectiveMax gs \<and> effectiveMax gs \<le> 5"
  by (simp add: effectiveMax_def dynamicMaxCourses_def MAX_COURSES_def)

lemma length_slice0: "0 \<le> e \<Longrightarrow> int (length (slice0 xs e)) = min e (int (length xs))"
  by (simp add: slice0_def)

lemma slice0_take: "0 \<le> e \<Longrightarrow> slice0 xs e = take (nat e) xs"
  by (simp add: slice0_def)

lemma effectiveMax_div:
  assumes "\<exists>g\<in>set gs. svg_entries g \<noteq> []"
  shows "effectiveMax gs = min 5 (max 2 (spaceForCourses gs div (36 * numGroups gs)))"
proof -
  from assms have "gs \<noteq> []" by auto
  then have pos: "0 < numGroups gs" by (simp add: numGroups_def)
  show ?thesis
    using effectiveMax_some[OF assms] floor_quotient[OF pos, of "spaceForCourses gs" 36]
    by simp
qed

lemma spaceForCourses_eq:
  "spaceForCourses gs = 840 - int (length gs) * 32 - max 0 (int (length gs) - 1) * 20"
  by (simp add: spaceForCourses_def availableHeight_def H_def body_y0_def PAD_def numGroups_def
      footerReserve_def groupHeaderH_def groupGap_def Let_def)

section \<open>Facts about blocks without entries\<close>

lemma grouped_nonempty:
  assumes "grouped p groups" "(k, es) \<in> set groups"
  shows "es \<noteq> []"
proof -
  from assms have es: "es = filter (\<lambda>d. sub_discipline d = k) p" unfolding grouped_def by blast
  from assms(2) have "k \<in> fst ` set groups" by force
  with assms(1) have "k \<in> sub_discipline ` set p" by (simp add: grouped_def)
  then obtain d where "d \<in> set p" "sub_discipline d = k" by auto
  then have "filter (\<lambda>d. sub_discipline d = k) p \<noteq> []"
    by (auto simp: filter_empty_conv)
  with es show ?thesis by simp
qed

lemma render_group_empty:
  assumes "svg_entries g = []"
  shows "render_group cap n (y, ps) (gi, g) =
           (y + groupHeaderH + (if int gi < n - 1 then groupGap else 0),
            ps @ [GroupHeader (y + 20)
                    (lookup_or SUB_DISC_ICONS (svg_sub_discipline g) DEFAULT_ICON)
                    (lookup_or SUB_DISC_ACCENT (svg_sub_discipline g) BRAND_COLOR)
                    (esc (svg_sub_discipline g))
                    (PAD + 34 + int (length (svg_sub_discipline g)) * 10 + 12) 0])"
  using assms
  by (simp add: render_group_parts group_parts_def group_height_def slice0_def)

section \<open>Facts about escaping, truncation and bars\<close>

subsection \<open>Escaping\<close>

lemma replace_all_append:
  "replace_all ch r (xs @ ys) = replace_all ch r xs @ replace_all ch r ys"
  by (induction xs) auto

lemma esc_Nil: "esc [] = []"
  by (simp add: esc_def)

lemma esc_Cons: "esc (x # xs) = esc_char x @ esc xs"
  by (simp add: esc_def esc_char_def replace_all_append js_def AMP_def LT_def GT_def QUOT_def
      APOS_def)

lemma esc_concat: "esc s = concat (map esc_char s)"
  by (induction s) (simp_all add: esc_Nil esc_Cons)



lemma decode_esc_char:
  assumes "x \<in> {AMP, LT, GT, QUOT, APOS}"
  shows "\<exists>t. esc_char x = AMP # t \<and> (\<forall>r. decode_entity (t @ r) = Some (x, r))"
  using assms
  by (auto simp: esc_char_def decode_entity_def entities_def js_def AMP_def LT_def GT_def
      QUOT_def APOS_def)

lemma unesc_esc_char: "unesc (esc_char x @ r) = map_option ((#) x) (unesc r)"
proof (cases "x \<in> {AMP, LT, GT, QUOT, APOS}")
  case True
  from decode_esc_char[OF this] obtain t
    where t: "esc_char x = AMP # t" "\<And>r. decode_entity (t @ r) = Some (x, r)" by blast
  show ?thesis by (simp add: t)
next
  case False
  then show ?thesis by (simp add: esc_char_def)
qed

lemma unesc_esc: "unesc (esc s) = Some s"
  by (induction s) (simp_all add: esc_Nil esc_Cons unesc_esc_char)



subsection \<open>Truncation\<close>

lemma truncateText_short: "length t \<le> 50 \<Longrightarrow> truncateText t 50 = t"
  by (simp add: truncateText_def)

lemma truncateText_long:
  assumes "50 < length t"
  shows "truncateText t 50 = take 49 t @ [ELLIPSIS]" "strict_prefix (take 49 t) t"
    "length (truncateText t 50) = 50"
proof -
  show 1: "truncateText t 50 = take 49 t @ [ELLIPSIS]"
    using assms by (simp add: truncateText_def slice0_def)
  have "length (take 49 t) = min (length t) 49" by (rule length_take)
  with assms have l: "length (take 49 t) \<noteq> length t" by arith
  have "take 49 t \<noteq> t"
  proof
    assume "take 49 t = t"
    then have "length (take 49 t) = length t" by (rule arg_cong)
    with l show False by blast
  qed
  then show "strict_prefix (take 49 t) t"
    by (simp add: strict_prefix_def take_is_prefix)
  have "length (take 49 t @ [ELLIPSIS]) = Suc (min (length t) 49)"
    by (simp only: length_append length_take list.size)
  with assms show "length (truncateText t 50) = 50" unfolding 1 by arith
qed

lemma truncateText_budget: "length (truncateText t 50) \<le> 50"
proof (cases "length t \<le> 50")
  case True
  then show ?thesis by (simp add: truncateText_short)
next
  case False
  then show ?thesis by (simp add: truncateText_long(3))
qed

subsection \<open>Bars\<close>

lemma maxQ_nonzero: "maxQ de \<noteq> 0"
  by (simp add: maxQ_def split: list.splits)

lemma barPct_spec:
  assumes "sorted_wrt (\<lambda>a b. svg_question_count b \<le> svg_question_count a) de" "e \<in> set de"
  shows "barPct (svg_question_count e) (maxQ de) =
           spec_barWidthPct (svg_question_count (hd de)) (svg_question_count e)"
proof -
  from assms(2) obtain x xs where de: "de = x # xs" by (cases de) auto
  show ?thesis
  proof (cases "svg_question_count x = 0")
    case True
    have "svg_question_count e \<le> 0"
      using assms True unfolding de by auto
    then have "(of_int (svg_question_count e) :: rat) \<le> 0" by simp
    then have "max 8 ((of_int (svg_question_count e) :: rat) * 100) = 8" 
      by (simp add: max_def mult_le_0_iff)
    with True show ?thesis
      by (simp add: barPct_def maxQ_def de spec_barWidthPct_def)
  next
    case False
    then show ?thesis by (simp add: barPct_def maxQ_def de spec_barWidthPct_def)
  qed
qed

section \<open>Facts about the entries of the aggregation\<close>

lemma agg_key_key_of: "agg_key r = key_of (triple r)"
  by (simp add: agg_key_def key_of_def triple_def)

lemma set_add_set: "set (set_add ys y) = insert y (set ys)"
  by (auto simp: set_add_def)

lemma set_add_distinct: "distinct ys \<Longrightarrow> distinct (set_add ys y)"
  by (simp add: set_add_def)

lemma item_years_bump: "item_years (bump e v) = set_add (item_years v) (ey e)"
  by (simp add: bump_def)

lemma aggregate_per_key:
  assumes "(k, v) \<in> set (aggregate F)"
  shows "item_count v = sum_list (map cnt (filter (\<lambda>r. agg_key r = k) F)) \<and>
         set (item_years v) = ey ` {r \<in> set F. agg_key r = k} \<and>
         distinct (item_years v) \<and>
         k = key_of (item_triple v)"
  using assms
proof (induction F arbitrary: k v rule: rev_induct)
  case Nil
  then show ?case by (simp add: aggregate_Nil)
next
  case (snoc x F)
  show ?case
  proof (cases "agg_key x \<in> fst ` set (aggregate F)")
    case True
    with snoc.prems have "(k, v) \<in> (\<lambda>(k', v). if k' = agg_key x then (k', bump x v) else (k', v))
        ` set (aggregate F)"
      by (simp add: aggregate_snoc agg_step_alt set_alist_update)
    then obtain v0 where v0: "(k, v0) \<in> set (aggregate F)"
      "v = (if k = agg_key x then bump x v0 else v0)"
      by (auto split: if_splits)
    note IH = snoc.IH[OF v0(1)]
    show ?thesis
    proof (cases "k = agg_key x")
      case kx: True
      have "{r \<in> set (F @ [x]). agg_key r = k} = insert x {r \<in> set F. agg_key r = k}"
        using kx by auto
      with IH kx v0(2) show ?thesis
        by (simp add: item_count_bump item_years_bump set_add_set set_add_distinct
            item_triple_bump)
    next
      case False
      then have "{r \<in> set (F @ [x]). agg_key r = k} = {r \<in> set F. agg_key r = k}"
        by auto
      with IH False v0(2) show ?thesis by simp
    qed
  next
    case False
    with snoc.prems have "(k, v) \<in> set (aggregate F) \<or> (k, v) = (agg_key x, bump x (fresh x))"
      by (auto simp: aggregate_snoc agg_step_alt)
    then show ?thesis
    proof
      assume old: "(k, v) \<in> set (aggregate F)"
      then have "k \<in> fst ` set (aggregate F)" by force
      with False have ne: "agg_key x \<noteq> k" by auto
      then have "{r \<in> set (F @ [x]). agg_key r = k} = {r \<in> set F. agg_key r = k}"
        by auto
      with snoc.IH[OF old] ne show ?thesis by simp
    next
      assume new: "(k, v) = (agg_key x, bump x (fresh x))"
      from False have "agg_key x \<notin> agg_key ` set F" by (simp add: keys_aggregate)
      then have none: "filter (\<lambda>r. agg_key r = agg_key x) F = []"
        by (rule filter_key_empty)
      then have "{r \<in> set F. agg_key r = agg_key x} = {}"
        by (auto simp: filter_empty_conv)
      then have "{r \<in> set (F @ [x]). agg_key r = agg_key x} = {x}" by auto
      with new none show ?thesis
        by (simp add: item_count_bump item_years_bump set_add_set set_add_distinct
            item_triple_bump)
           (simp add: fresh_def item_triple_def agg_key_def key_of_def set_add_def)
    qed
  qed
qed

lemma set_filteredData:
  "set (filteredData lc raw tys yrs) =
     toCoursEntry ` snd ` set (aggregate (filter (matches tys yrs) raw))"
  by (simp add: filteredData_alt set_js_sort unsorted_def image_image)

text \<open>
  What every entry of the output holds: the sum and the years of the filtered records
  that have its key.
\<close>

lemma filteredData_per_key:
  assumes "d \<in> set (filteredData lc raw tys yrs)"
  shows "question_count d =
           sum_list (map cnt (filter (\<lambda>r. agg_key r = key_of (cours_triple d))
                                (filter (matches tys yrs) raw))) \<and>
         set (exam_years_list d) =
           ey ` {r \<in> set (filter (matches tys yrs) raw). agg_key r = key_of (cours_triple d)} \<and>
         years_appeared d = int (length (exam_years_list d)) \<and>
         distinct (exam_years_list d)"
proof -
  from assms obtain k v where kv: "(k, v) \<in> set (aggregate (filter (matches tys yrs) raw))"
    "d = toCoursEntry v"
    unfolding set_filteredData by auto
  from aggregate_per_key[OF kv(1)] kv(2) show ?thesis
    by (simp add: cours_triple_toCoursEntry)
       (simp add: toCoursEntry_def set_js_sort length_js_sort distinct_js_sort)
qed

text \<open>
  When no two filtered records with different triples have the same key, every entry
  holds the sum and the years of the filtered records that have its triple.
\<close>

lemma filteredData_per_triple:
  assumes "d \<in> set (filteredData lc raw tys yrs)"
    and "\<forall>r\<in>set (filter (matches tys yrs) raw). \<forall>r'\<in>set (filter (matches tys yrs) raw).
           agg_key r = agg_key r' \<longrightarrow> triple r = triple r'"
  shows "question_count d =
           sum_list (map cnt (filter (\<lambda>r. triple r = cours_triple d)
                                (filter (matches tys yrs) raw))) \<and>
         set (exam_years_list d) =
           ey ` {r \<in> set (filter (matches tys yrs) raw). triple r = cours_triple d}"
proof -
  let ?F = "filter (matches tys yrs) raw"
  from filteredData_names[OF assms(1)] obtain r0 where r0: "r0 \<in> set ?F" "cours_triple d = triple r0"
    by blast
  have eq: "(agg_key r = key_of (cours_triple d)) = (triple r = cours_triple d)" if "r \<in> set ?F" for r
    using assms(2) that r0 by (auto simp: agg_key_key_of)
  have "filter (\<lambda>r. agg_key r = key_of (cours_triple d)) ?F =
        filter (\<lambda>r. triple r = cours_triple d) ?F"
    by (rule filter_cong) (simp_all add: eq)
  moreover have "{r \<in> set ?F. agg_key r = key_of (cours_triple d)} =
        {r \<in> set ?F. triple r = cours_triple d}"
    using eq by blast
  ultimately show ?thesis using filteredData_per_key[OF assms(1)] by simp
qed

section \<open>The order of the output when the names are told apart\<close>

text \<open>
  Let \<open>localeCompare\<close> be a consistent comparator that tells the module and
  sub-discipline names of the filtered records apart. Then in the output of the
  aggregation an entry stands before another only if its module name sorts first, or
  the modules are equal and its sub-discipline name sorts first, or both are equal and
  it has more questions, or all three are equal and its triple occurs first in the
  filtered records; and the course labels of the document are escaped after
  truncation.
\<close>

lemma aggregation_order_when_names_are_told_apart:
  assumes "consistent_collation lc"
    and "distinguishes lc (m ` set (filter (matches tys yrs) raw) \<union> sd ` set (filter (matches tys yrs) raw))"
  shows "sorted_wrt (agg_before lc (filter (matches tys yrs) raw)) (filteredData lc raw tys yrs) \<and>
         concat (map course_label (doc_body (generateTendanceSVG opts))) =
           concat (map (\<lambda>g. map (\<lambda>e. esc (truncateText (svg_cours_topic e) 50))
                               (slice0 (svg_entries g) (effectiveMax (subDiscGroups opts))))
                       (subDiscGroups opts)) \<and>
         esc (truncateText t 50) = concat (map esc_char (truncateText t 50)) \<and>
         length (truncateText t 50) \<le> 50 \<and>
         unesc (esc (truncateText t 50)) = Some (truncateText t 50)"
  using filteredData_order[OF assms] truncateText_budget[of t]
  by (simp add: doc_body_parts course_label_groups unesc_esc esc_concat[symmetric])

lemma aggregation_order_of_example_records:
  "consistent_collation codeunit_compare \<and>
   map cours_topic (filteredData codeunit_compare example_records [] []) =
     map js [''Coeur'', ''Aorte'', ''Debit'', ''Souffle'', ''Foie''] \<and>
   sorted_wrt (agg_before codeunit_compare (filter (matches [] []) example_records))
     (filteredData codeunit_compare example_records [] [])"
proof -
  have e: "map cours_topic (filteredData codeunit_compare example_records [] []) =
     map js [''Coeur'', ''Aorte'', ''Debit'', ''Souffle'', ''Foie'']"
    by (simp add: filteredData_def matches_def aggregate_def agg_step_def agg_key_def granular_def
      example_records_def js_def alist_update_def set_add_def
      toCoursEntry_def js_sort_def Let_def compareCours_def)
  from aggregation_order_when_names_are_told_apart[OF consistent_codeunit_compare
      distinguishes_codeunit_compare, of "[]" "[]" example_records]
    consistent_codeunit_compare e
  show ?thesis by blast
qed

text \<open>
  Under the same condition, and if no sub-discipline of the selected module bears the
  name of a member of \<open>Object.prototype\<close>, \<open>groupedBySubDisc\<close> returns blocks, each
  holding the entries of its sub-discipline in the order of \<open>filteredData\<close>, and in
  every block an entry stands before another only if it has more questions, or as
  many and its triple was met first in the filtered records.
\<close>

lemma ranking_when_names_are_told_apart:
  assumes "consistent_collation lc"
    and "distinguishes lc (m ` set (filter (matches tys yrs) raw) \<union> sd ` set (filter (matches tys yrs) raw))"
    and "\<forall>r\<in>set (filter (matches tys yrs) raw). m r = mo \<longrightarrow> sd r \<notin> set object_prototype_names"
  shows "(\<exists>blocks.
            groupedBySubDisc lc (filteredByModule (filteredData lc raw tys yrs) mo) = Inr blocks \<and>
            (\<forall>(su, es)\<in>set blocks.
               es = filter (\<lambda>d. sub_discipline d = su)
                      (filteredByModule (filteredData lc raw tys yrs) mo) \<and>
               sorted_wrt (ranked_before (filter (matches tys yrs) raw)) es)) \<and>
         groupedBySubDisc lc'
           (filteredByModule
              (filteredData lc'
                 [granular ''M'' ''S'' ''A'' 2020 ''EMD1'' 10,
                  granular ''M'' ''S'' ''B'' 2020 ''EMD1'' 10,
                  granular ''M'' ''S'' ''C'' 2020 ''EMD1'' 5] [] []) (js ''M'')) =
           Inr [(js ''S'', [cours ''M'' ''S'' ''A'' 10 [2020], cours ''M'' ''S'' ''B'' 10 [2020],
                            cours ''M'' ''S'' ''C'' 5 [2020]])]"
proof
  let ?F = "filter (matches tys yrs) raw"
  let ?out = "filteredData lc raw tys yrs"
  have "\<forall>d\<in>set (filteredByModule ?out mo). sub_discipline d \<notin> set object_prototype_names"
  proof
    fix d assume "d \<in> set (filteredByModule ?out mo)"
    then have d: "d \<in> set ?out" "module_name d = mo" by (simp_all add: filteredByModule_def)
    from filteredData_names[OF d(1)] obtain r where "r \<in> set ?F" "cours_triple d = triple r"
      by blast
    with d(2) assms(3) show "sub_discipline d \<notin> set object_prototype_names"
      by (auto simp: cours_triple_def triple_def)
  qed
  from groupedBySubDisc_ok[OF this, of lc] obtain groups
    where g: "groupedBySubDisc lc (filteredByModule ?out mo) = Inr (blocks_of lc groups)"
      "grouped (filteredByModule ?out mo) groups" by blast
  have "\<forall>(su, es)\<in>set (blocks_of lc groups).
               es = filter (\<lambda>d. sub_discipline d = su) (filteredByModule ?out mo) \<and>
               sorted_wrt (ranked_before ?F) es"
  proof (clarify)
    fix su es assume "(su, es) \<in> set (blocks_of lc groups)"
    then have "(su, es) \<in> set groups" by (simp add: set_blocks_of)
    with g(2) have es: "es = filter (\<lambda>d. sub_discipline d = su) (filteredByModule ?out mo)"
      unfolding grouped_def by blast
    have "sorted_wrt (ranked_before ?F) es"
      unfolding es filteredByModule_def
      by (rule block_ranked[OF assms(1) filteredData_order[OF assms(1,2)]])
    with es show "es = filter (\<lambda>d. sub_discipline d = su) (filteredByModule ?out mo) \<and>
               sorted_wrt (ranked_before ?F) es" by simp
  qed
  with g(1) show "\<exists>blocks.
            groupedBySubDisc lc (filteredByModule ?out mo) = Inr blocks \<and>
            (\<forall>(su, es)\<in>set blocks.
               es = filter (\<lambda>d. sub_discipline d = su) (filteredByModule ?out mo) \<and>
               sorted_wrt (ranked_before ?F) es)"
    by blast
next
  show "groupedBySubDisc lc'
           (filteredByModule
              (filteredData lc'
                 [granular ''M'' ''S'' ''A'' 2020 ''EMD1'' 10,
                  granular ''M'' ''S'' ''B'' 2020 ''EMD1'' 10,
                  granular ''M'' ''S'' ''C'' 2020 ''EMD1'' 5] [] []) (js ''M'')) =
           Inr [(js ''S'', [cours ''M'' ''S'' ''A'' 10 [2020], cours ''M'' ''S'' ''B'' 10 [2020],
                            cours ''M'' ''S'' ''C'' 5 [2020]])]"
    by (simp add: filteredData_def matches_def aggregate_def agg_step_def agg_key_def granular_def
        cours_def js_def alist_update_def set_add_def toCoursEntry_def js_sort_def Let_def
        compareCours_def groupedBySubDisc_def filteredByModule_def group_step_def
        object_prototype_names_def object_entries_def is_array_index_def)
qed

lemma ranking_of_example_records:
  "consistent_collation codeunit_compare \<and>
   (\<exists>blocks.
      groupedBySubDisc codeunit_compare
        (filteredByModule (filteredData codeunit_compare example_records [] []) (js ''Cardio''))
        = Inr blocks \<and>
      (\<forall>(su, es)\<in>set blocks.
         es = filter (\<lambda>d. sub_discipline d = su)
                (filteredByModule (filteredData codeunit_compare example_records [] [])
                   (js ''Cardio'')) \<and>
         sorted_wrt (ranked_before (filter (matches [] []) example_records)) es))"
proof -
  have h: "\<forall>r\<in>set (filter (matches [] []) example_records).
             m r = js ''Cardio'' \<longrightarrow> sd r \<notin> set object_prototype_names"
    by (simp add: example_records_def granular_def matches_def object_prototype_names_def js_def)
  from ranking_when_names_are_told_apart[OF consistent_codeunit_compare distinguishes_codeunit_compare h]
  show ?thesis using consistent_codeunit_compare by blast
qed

lemma consistent_canonical_compare: "consistent_collation canonical_compare"
  unfolding consistent_collation_def canonical_compare_def
  using codeunit_compare_refl codeunit_compare_anti codeunit_compare_trans by blast

section \<open>Conservation of the question count\<close>

text \<open>
  Claim C1. For every sequence of raw records and every filter selection, the sum of
  \<open>question_count\<close> over the entries that the aggregation returns equals the sum of
  \<open>cnt\<close> over the records that survive the filter: those whose exam type is selected
  or no exam type is selected, and whose exam year is selected or no year is
  selected.
\<close>

theorem conservation_of_question_count:
  "sum_list (map question_count (filteredData lc rawEntries examTypes examYears)) =
   sum_list (map cnt (filter (\<lambda>r. (examTypes = [] \<or> et r \<in> set examTypes) \<and>
                                   (examYears = [] \<or> ey r \<in> set examYears)) rawEntries))"
proof -
  have m: "matches examTypes examYears =
        (\<lambda>r. (examTypes = [] \<or> et r \<in> set examTypes) \<and> (examYears = [] \<or> ey r \<in> set examYears))"
    by (auto simp: matches_def fun_eq_iff)
  have q: "question_count (toCoursEntry v) = item_count v" for v
    by (simp add: toCoursEntry_def)
  show ?thesis
  proof (cases "rawEntries = []")
    case True
    then show ?thesis by (simp add: filteredData_def)
  next
    case False
    then show ?thesis
      using sum_count_aggregate[of "filter (matches examTypes examYears) rawEntries"]
      by (simp add: filteredData_def Let_def sum_list_js_sort m q o_def)
  qed
qed

section \<open>The aggregation by triple\<close>

text \<open>
  Claim C2 says that every entry of the output holds the sum of \<open>cnt\<close> and the set of
  exam years of the filtered records that have the entry's (module, sub-discipline,
  course) triple. The loop keys \<open>aggMap\<close> by the joined string \<open>agg_key\<close>, which two
  different triples share when a name contains the separator. On the two records of
  \<open>colliding_records\<close>, whose keys are both \<open>a|||b|||c|||t\<close>, the output is one entry
  with the triple of the first record, 3 questions and the years 2020 and 2021, while
  the records that have this triple sum to 1 question, in the year 2020. (By
  \<open>filteredData_per_triple\<close> above the claim holds whenever the keys of the filtered
  records determine their triples.)
\<close>

theorem aggregation_merges_colliding_keys:
  "filteredData lc colliding_records [] [] =
     [cours ''a|||b'' ''c'' ''t'' 3 [2020, 2021]] \<and>
   sum_list (map cnt (filter (\<lambda>r. triple r = (js ''a|||b'', js ''c'', js ''t'')) colliding_records))
     = 1 \<and>
   map ey (filter (\<lambda>r. triple r = (js ''a|||b'', js ''c'', js ''t'')) colliding_records) = [2020]"
  by (simp add: filteredData_def matches_def aggregate_def agg_step_def agg_key_def granular_def
      colliding_records_def cours_def triple_def js_def alist_update_def set_add_def
      toCoursEntry_def js_sort_def Let_def)

section \<open>The cap on the visible entries of a block\<close>

text \<open>
  Claim C3, with the number of blocks as the generator counts it. With
  \<open>availableHeight = 840\<close>, \<open>R = 36\<close>, \<open>G = 32\<close>, a gap of 20, \<open>Kmin = 2\<close> and
  \<open>K = 5\<close>: \<open>numGroups\<close> is the number of blocks passed to the generator, empty ones
  included, and \<open>spaceForCourses\<close> is the available height less \<open>G\<close> per block and
  the gap between consecutive blocks. When some block has an entry, \<open>numGroups\<close> is
  not 0 and the cap is the floor of \<open>spaceForCourses / R / numGroups\<close> clamped to
  \<open>[Kmin, K]\<close>, which is \<open>Kmin\<close> when \<open>spaceForCourses \<le> 0\<close>. When no block has an
  entry the cap is \<open>K\<close> (the quotient is not evaluated). When no block is empty,
  \<open>numGroups\<close> is the number of non-empty blocks. The one cap applies to every block
  of the invocation: the header of each block announces, and its rows show, the first
  \<open>min(cap, number of entries)\<close> entries. Without blocks the body is empty.
\<close>

theorem layout_cap_by_block_count:
  "availableHeight = 840 \<and>
   numGroups gs = int (length gs) \<and>
   spaceForCourses gs = availableHeight - numGroups gs * 32 - max 0 (numGroups gs - 1) * 20 \<and>
   ((\<exists>g\<in>set gs. svg_entries g \<noteq> []) \<longrightarrow>
      numGroups gs \<noteq> 0 \<and>
      effectiveMax gs =
        max 2 (min 5 \<lfloor>(of_int (spaceForCourses gs) :: rat) / 36 / of_int (numGroups gs)\<rfloor>) \<and>
      (spaceForCourses gs \<le> 0 \<longrightarrow> effectiveMax gs = 2)) \<and>
   ((\<forall>g\<in>set gs. svg_entries g = []) \<longrightarrow> effectiveMax gs = 5) \<and>
   ((\<forall>g\<in>set gs. svg_entries g \<noteq> []) \<longrightarrow> numGroups gs = spec_numBlocks gs) \<and>
   concat (map header_info (doc_body (generateTendanceSVG opts))) =
     map (\<lambda>g. (esc (svg_sub_discipline g),
                min (effectiveMax (subDiscGroups opts)) (int (length (svg_entries g)))))
         (subDiscGroups opts) \<and>
   concat (map course_label (doc_body (generateTendanceSVG opts))) =
     concat (map (\<lambda>g. map (\<lambda>e. esc (truncateText (svg_cours_topic e) 50))
                         (take (nat (effectiveMax (subDiscGroups opts))) (svg_entries g)))
                 (subDiscGroups opts)) \<and>
   (subDiscGroups opts = [] \<longrightarrow> doc_body (generateTendanceSVG opts) = [])"
proof (intro conjI impI)
  show "availableHeight = 840"
    by (simp add: availableHeight_def H_def body_y0_def PAD_def footerReserve_def)
  show "numGroups gs = int (length gs)" by (simp add: numGroups_def)
  show "spaceForCourses gs = availableHeight - numGroups gs * 32 - max 0 (numGroups gs - 1) * 20"
    by (simp add: spaceForCourses_def groupHeaderH_def groupGap_def Let_def)
next
  assume a: "\<exists>g\<in>set gs. svg_entries g \<noteq> []"
  then have "gs \<noteq> []" by auto
  then show n0: "numGroups gs \<noteq> 0" by (simp add: numGroups_def)
  show e: "effectiveMax gs =
        max 2 (min 5 \<lfloor>(of_int (spaceForCourses gs) :: rat) / 36 / of_int (numGroups gs)\<rfloor>)"
    by (simp add: effectiveMax_some[OF a])
  assume s: "spaceForCourses gs \<le> 0"
  have pos: "0 < numGroups gs" using \<open>gs \<noteq> []\<close> by (simp add: numGroups_def)
  have "\<lfloor>(of_int (spaceForCourses gs) :: rat) / 36 / of_int (numGroups gs)\<rfloor>
        = spaceForCourses gs div (36 * numGroups gs)"
    using floor_quotient[OF pos, of "spaceForCourses gs" 36] by simp
  moreover have "spaceForCourses gs div (36 * numGroups gs) \<le> 0"
    using s pos by (simp add: div_nonpos_pos_le0)
  ultimately show "effectiveMax gs = 2" using e by simp
next
  assume "\<forall>g\<in>set gs. svg_entries g = []"
  then show "effectiveMax gs = 5" by (rule effectiveMax_none)
next
  assume "\<forall>g\<in>set gs. svg_entries g \<noteq> []"
  then have "filter (\<lambda>g. svg_entries g \<noteq> []) gs = gs" by (simp add: filter_id_conv)
  then show "numGroups gs = spec_numBlocks gs" by (simp add: numGroups_def spec_numBlocks_def)
next
  have c: "0 \<le> effectiveMax (subDiscGroups opts)"
    using effectiveMax_range[of "subDiscGroups opts"] by simp
  show "concat (map header_info (doc_body (generateTendanceSVG opts))) =
     map (\<lambda>g. (esc (svg_sub_discipline g),
                min (effectiveMax (subDiscGroups opts)) (int (length (svg_entries g)))))
         (subDiscGroups opts)"
    by (simp add: doc_body_parts header_info_groups length_slice0[OF c])
  show "concat (map course_label (doc_body (generateTendanceSVG opts))) =
     concat (map (\<lambda>g. map (\<lambda>e. esc (truncateText (svg_cours_topic e) 50))
                         (take (nat (effectiveMax (subDiscGroups opts))) (svg_entries g)))
                 (subDiscGroups opts))"
    by (simp add: doc_body_parts course_label_groups slice0_take[OF c])
next
  assume "subDiscGroups opts = []"
  then show "doc_body (generateTendanceSVG opts) = []" by (simp add: doc_body_parts)
qed

text \<open>
  The claim takes \<open>numBlocks\<close> to be the number of non-empty blocks. For one block of
  five entries followed by three empty blocks that number is 1 and the cap of the
  specification is 5; the generator divides by 4 blocks and caps at 4.
\<close>

theorem layout_cap_counterexample:
  "spec_numBlocks one_full_three_empty = 1 \<and>
   spec_dynamicCap availableHeight one_full_three_empty = 5 \<and>
   numGroups one_full_three_empty = 4 \<and>
   effectiveMax one_full_three_empty = 4 \<and>
   effectiveMax one_full_three_empty \<noteq> spec_dynamicCap availableHeight one_full_three_empty"
proof -
  have n: "spec_numBlocks one_full_three_empty = 1"
    by (simp add: spec_numBlocks_def one_full_three_empty_def svg_group_def)
  have "\<lfloor>(202::rat) / 9\<rfloor> = 22"
    using floor_divide_of_int_eq[of 202 9, where ?'a = rat] by simp
  then have s: "spec_dynamicCap availableHeight one_full_three_empty = 5"
    by (simp add: spec_dynamicCap_def n availableHeight_def H_def body_y0_def PAD_def
        footerReserve_def Let_def)
  have g: "numGroups one_full_three_empty = 4"
    by (simp add: numGroups_def one_full_three_empty_def)
  have ex: "\<exists>g\<in>set one_full_three_empty. svg_entries g \<noteq> []"
    by (simp add: one_full_three_empty_def svg_group_def)
  have e: "effectiveMax one_full_three_empty = 4"
    by (simp add: effectiveMax_div[OF ex] spaceForCourses_eq g) (simp add: one_full_three_empty_def)
  from n s g e show ?thesis by simp
qed

text \<open>
  Four blocks of 6, 3, 1 and 2 entries: 652 units are left for rows, the cap is
  \<open>floor(652 / 36 / 4) = 4\<close>, and the headers announce 4, 3, 1 and 2 entries.
\<close>

theorem layout_cap_by_block_count_witness:
  "(\<exists>g\<in>set four_groups. svg_entries g \<noteq> []) \<and>
   numGroups four_groups = 4 \<and>
   spaceForCourses four_groups = 652 \<and>
   effectiveMax four_groups = max 2 (min 5 \<lfloor>(652 :: rat) / 36 / 4\<rfloor>) \<and>
   effectiveMax four_groups = 4 \<and>
   concat (map header_info (doc_body (generateTendanceSVG (export_options four_groups)))) =
     [(js ''Anatomie'', 4), (js ''Histologie'', 3), (js ''Physiologie'', 1), (js ''Biochimie'', 2)]"
proof -
  have ex: "\<exists>g\<in>set four_groups. svg_entries g \<noteq> []"
    by (simp add: four_groups_def svg_group_def)
  have g: "numGroups four_groups = 4" by (simp add: numGroups_def four_groups_def)
  have s: "spaceForCourses four_groups = 652"
    by (simp add: spaceForCourses_eq) (simp add: four_groups_def)
  have e: "effectiveMax four_groups = 4"
    by (simp add: effectiveMax_div[OF ex] s g)
  have t: "map (\<lambda>g. (esc (svg_sub_discipline g), min 4 (int (length (svg_entries g))))) four_groups
      = [(js ''Anatomie'', 4), (js ''Histologie'', 3), (js ''Physiologie'', 1), (js ''Biochimie'', 2)]"
    by (simp add: four_groups_def svg_group_def esc_def js_def AMP_def LT_def GT_def QUOT_def APOS_def)
  have f: "\<lfloor>(163::rat) / 36\<rfloor> = 4"
    using floor_divide_of_int_eq[of 163 36, where ?'a = rat] by simp
  from layout_cap_by_block_count[of four_groups "export_options four_groups"] ex g s e t f
  show ?thesis by (simp add: export_options_def)
qed

section \<open>Escaping\<close>



section \<open>Ranking within a sub-discipline\<close>

text \<open>
  Claim C5 says that within each sub-discipline the projected entries are in
  descending order of their question count, entries with equal counts in the order
  in which the aggregation met them. The projection does not sort: it keeps the order
  of \<open>filteredData\<close>, whose comparator tests the names with \<open>!==\<close> and orders them with
  \<open>localeCompare\<close>. For the two spellings of one module name the test finds them
  different and \<open>localeCompare\<close> returns 0, so an entry of the other spelling compares
  equal to every entry of the module, whatever its sub-discipline and count. On
  \<open>accented_records\<close> the three entries therefore stay in the order in which they were
  met, and the block \<open>Anatomie\<close> of the module in the composed spelling holds the
  course with 1 question before the course with 9. The example of the claim holds:
  three courses A, B, C of one sub-discipline met in this order with 10, 10 and 5
  questions come out as A, B, C, whatever the collation. (By
  \<open>ranking_when_names_are_told_apart\<close> above the claim holds whenever \<open>localeCompare\<close>
  tells the names of the filtered records apart.)
\<close>

theorem ranking_broken_by_equivalent_names:
  "groupedBySubDisc canonical_compare
     (filteredByModule (filteredData canonical_compare accented_records [] []) cafe_composed) =
   Inr [(js ''Anatomie'',
         [accented_entry cafe_composed ''Anatomie'' ''A'' 1,
          accented_entry cafe_composed ''Anatomie'' ''C'' 9])] \<and>
   groupedBySubDisc lc
     (filteredByModule
        (filteredData lc
           [granular ''M'' ''S'' ''A'' 2020 ''EMD1'' 10,
            granular ''M'' ''S'' ''B'' 2020 ''EMD1'' 10,
            granular ''M'' ''S'' ''C'' 2020 ''EMD1'' 5] [] []) (js ''M'')) =
     Inr [(js ''S'', [cours ''M'' ''S'' ''A'' 10 [2020], cours ''M'' ''S'' ''B'' 10 [2020],
                      cours ''M'' ''S'' ''C'' 5 [2020]])]"
  by (simp add: filteredData_def matches_def aggregate_def agg_step_def agg_key_def
      accented_records_def accented_entry_def cafe_composed_def cafe_decomposed_def
      canonical_compare_def js_def alist_update_def set_add_def toCoursEntry_def js_sort_def
      Let_def compareCours_def groupedBySubDisc_def filteredByModule_def group_step_def
      object_prototype_names_def object_entries_def is_array_index_def granular_def cours_def)

section \<open>The order of the sub-disciplines\<close>



section \<open>Blocks without entries\<close>

text \<open>
  Claim C7, as the generator behaves. A block is rendered whether or not it has
  entries: the cursor advances by the header height, by the row height for each
  visible entry, and by the gap unless the block is the last; one header is added,
  announcing the number of visible entries; and a block without entries adds exactly
  its header, announcing 0 entries. Blocks with zero rows do not arise in the export
  because \<open>buildSvgDataForModule\<close>, whenever no sub-discipline of the module bears the
  name of a member of \<open>Object.prototype\<close>, returns only blocks that have an entry,
  each of which shows at least one row under the cap.
\<close>

theorem empty_block_is_rendered:
  "fst (render_group cap n (y, ps) (gi, g)) =
     y + groupHeaderH + courseRowH * int (length (slice0 (svg_entries g) cap))
       + (if int gi < n - 1 then groupGap else 0) \<and>
   concat (map header_info (snd (render_group cap n (y, ps) (gi, g)))) =
     concat (map header_info ps)
     @ [(esc (svg_sub_discipline g), int (length (slice0 (svg_entries g) cap)))] \<and>
   (svg_entries g = [] \<longrightarrow>
      render_group cap n (y, ps) (gi, g) =
        (y + groupHeaderH + (if int gi < n - 1 then groupGap else 0),
         ps @ [GroupHeader (y + 20)
                 (lookup_or SUB_DISC_ICONS (svg_sub_discipline g) DEFAULT_ICON)
                 (lookup_or SUB_DISC_ACCENT (svg_sub_discipline g) BRAND_COLOR)
                 (esc (svg_sub_discipline g))
                 (PAD + 34 + int (length (svg_sub_discipline g)) * 10 + 12) 0])) \<and>
   ((\<forall>d\<in>set fd. module_name d = mo \<longrightarrow> sub_discipline d \<notin> set object_prototype_names) \<longrightarrow>
      (\<exists>opts. buildSvgDataForModule lc fd eyRange eyTotal mo allowed = Inr opts \<and>
         (\<forall>b\<in>set (subDiscGroups opts).
            svg_entries b \<noteq> [] \<and>
            1 \<le> length (slice0 (svg_entries b) (effectiveMax (subDiscGroups opts))))))"
proof (intro conjI impI)
  show "fst (render_group cap n (y, ps) (gi, g)) =
     y + groupHeaderH + courseRowH * int (length (slice0 (svg_entries g) cap))
       + (if int gi < n - 1 then groupGap else 0)"
    by (simp add: render_group_parts group_height_def)
  show "concat (map header_info (snd (render_group cap n (y, ps) (gi, g)))) =
     concat (map header_info ps)
     @ [(esc (svg_sub_discipline g), int (length (slice0 (svg_entries g) cap)))]"
    by (simp add: render_group_parts group_parts_def header_info_rows)
next
  assume "svg_entries g = []"
  then show "render_group cap n (y, ps) (gi, g) =
        (y + groupHeaderH + (if int gi < n - 1 then groupGap else 0),
         ps @ [GroupHeader (y + 20)
                 (lookup_or SUB_DISC_ICONS (svg_sub_discipline g) DEFAULT_ICON)
                 (lookup_or SUB_DISC_ACCENT (svg_sub_discipline g) BRAND_COLOR)
                 (esc (svg_sub_discipline g))
                 (PAD + 34 + int (length (svg_sub_discipline g)) * 10 + 12) 0])"
    by (rule render_group_empty)
next
  assume a: "\<forall>d\<in>set fd. module_name d = mo \<longrightarrow> sub_discipline d \<notin> set object_prototype_names"
  from buildSvgDataForModule_ok[OF a, of lc eyRange eyTotal allowed]
  obtain groups modEntries opts where
    b: "buildSvgDataForModule lc fd eyRange eyTotal mo allowed = Inr opts"
      "subDiscGroups opts = map (\<lambda>(subDisc, entries).
                           \<lparr>svg_sub_discipline = subDisc,
                            svg_entries =
                              map (\<lambda>e. \<lparr>svg_cours_topic = cours_topic e,
                                          svg_question_count = question_count e\<rparr>) entries\<rparr>)
                        (blocks_of lc groups)"
      "grouped modEntries groups"
    by force
  have "svg_entries b \<noteq> [] \<and>
        1 \<le> length (slice0 (svg_entries b) (effectiveMax (subDiscGroups opts)))"
    if "b \<in> set (subDiscGroups opts)" for b
  proof -
    from that obtain k es where kes: "(k, es) \<in> set (blocks_of lc groups)"
      "svg_entries b = map (\<lambda>e. \<lparr>svg_cours_topic = cours_topic e,
                                          svg_question_count = question_count e\<rparr>) es"
      unfolding b(2) by auto
    from kes(1) have "(k, es) \<in> set groups" by (simp add: set_blocks_of)
    from grouped_nonempty[OF b(3) this] kes(2) have ne: "svg_entries b \<noteq> []" by simp
    have r: "2 \<le> effectiveMax (subDiscGroups opts)"
      using effectiveMax_range[of "subDiscGroups opts"] by simp
    then have "int (length (slice0 (svg_entries b) (effectiveMax (subDiscGroups opts)))) =
        min (effectiveMax (subDiscGroups opts)) (int (length (svg_entries b)))"
      by (intro length_slice0) simp
    moreover have "1 \<le> int (length (svg_entries b))" using ne by (cases "svg_entries b") simp_all
    ultimately have "1 \<le> int (length (slice0 (svg_entries b) (effectiveMax (subDiscGroups opts))))"
      using r by simp
    with ne show ?thesis by simp
  qed
  with b(1) show "\<exists>opts. buildSvgDataForModule lc fd eyRange eyTotal mo allowed = Inr opts \<and>
         (\<forall>b\<in>set (subDiscGroups opts).
            svg_entries b \<noteq> [] \<and>
            1 \<le> length (slice0 (svg_entries b) (effectiveMax (subDiscGroups opts))))"
    by blast
qed

text \<open>
  The claim says that a block without entries adds nothing to the document and
  takes no height. A single block without entries adds its header, and moves the
  cursor from 180 to 212.
\<close>

theorem empty_block_counterexample:
  "doc_body (generateTendanceSVG (export_options [svg_group ''Anatomie'' 0])) =
     [GroupHeader 200 (Str [0xD83E, 0xDEC0]) (Str (js ''#f43f5e'')) (js ''Anatomie'') 174 0] \<and>
   doc_body (generateTendanceSVG (export_options [svg_group ''Anatomie'' 0])) \<noteq> [] \<and>
   body_y0 = 180 \<and>
   fst (render_groups [svg_group ''Anatomie'' 0]) = 212"
proof -
  have e: "svg_entries (svg_group ''Anatomie'' 0) = []" by (simp add: svg_group_def)
  have "render_groups [svg_group ''Anatomie'' 0] =
      (212, [GroupHeader 200 (Str [0xD83E, 0xDEC0]) (Str (js ''#f43f5e'')) (js ''Anatomie'') 174 0])"
    unfolding render_groups_def
    by (simp add: render_group_empty[OF e])
       (simp add: body_y0_def PAD_def groupHeaderH_def lookup_or_def SUB_DISC_ICONS_def
          SUB_DISC_ACCENT_def svg_group_def js_def esc_def AMP_def LT_def GT_def QUOT_def APOS_def)
  then show ?thesis
    by (simp add: generateTendanceSVG_def export_options_def body_y0_def PAD_def)
qed

text \<open>
  The same block as the first of two, and the export of the module \<open>Cardio\<close> of
  \<open>example_entries\<close>.
\<close>

theorem empty_block_is_rendered_witness:
  "(svg_entries (svg_group ''Anatomie'' 0) = []) \<and>
   render_group 5 2 (180, []) (0, svg_group ''Anatomie'' 0) =
     (232, [GroupHeader 200 (Str [0xD83E, 0xDEC0]) (Str (js ''#f43f5e'')) (js ''Anatomie'') 174 0]) \<and>
   (\<exists>opts. buildSvgDataForModule codeunit_compare example_entries (js ''2020-2022'') 3
              (js ''Cardio'') None = Inr opts \<and>
      (\<forall>b\<in>set (subDiscGroups opts).
         svg_entries b \<noteq> [] \<and>
         1 \<le> length (slice0 (svg_entries b) (effectiveMax (subDiscGroups opts)))))"
proof -
  have e: "svg_entries (svg_group ''Anatomie'' 0) = []" by (simp add: svg_group_def)
  have h: "\<forall>d\<in>set example_entries.
             module_name d = js ''Cardio'' \<longrightarrow> sub_discipline d \<notin> set object_prototype_names"
    by (simp add: example_entries_def cours_def object_prototype_names_def js_def)
  note t = empty_block_is_rendered[of 5 2 180 "[]" 0 "svg_group ''Anatomie'' 0" example_entries "js ''Cardio''"
      codeunit_compare "js ''2020-2022''" 3 None]
  from t e have 1: "render_group 5 2 (180, []) (0, svg_group ''Anatomie'' 0) =
     (232, [GroupHeader 200 (Str [0xD83E, 0xDEC0]) (Str (js ''#f43f5e'')) (js ''Anatomie'') 174 0])"
    by (simp add: PAD_def groupHeaderH_def groupGap_def lookup_or_def SUB_DISC_ICONS_def
          SUB_DISC_ACCENT_def svg_group_def js_def esc_def AMP_def LT_def GT_def QUOT_def APOS_def)
  from t h have 2: "\<exists>opts. buildSvgDataForModule codeunit_compare example_entries (js ''2020-2022'') 3
              (js ''Cardio'') None = Inr opts \<and>
      (\<forall>b\<in>set (subDiscGroups opts).
         svg_entries b \<noteq> [] \<and>
         1 \<le> length (slice0 (svg_entries b) (effectiveMax (subDiscGroups opts))))"
    by blast
  from e 1 2 show ?thesis by blast
qed

section \<open>The widths of the bars\<close>

text \<open>
  Claim C8. For every block whose visible entries are in descending order of their
  question count: the divisor \<open>maxQ\<close> is never 0; the percentage of every visible
  entry is \<open>max(8, questionCount / localMax * 100)\<close> where \<open>localMax\<close>, the count of
  the first visible entry, is not 0, and is 8 where \<open>localMax\<close> is 0; and the filled
  bars of the block have the widths that these percentages give.
\<close>

theorem degenerate_bar_widths:
  assumes "sorted_wrt (\<lambda>a b. svg_question_count b \<le> svg_question_count a)
             (slice0 (svg_entries g) cap)"
  shows "maxQ (slice0 (svg_entries g) cap) \<noteq> 0 \<and>
         (\<forall>e\<in>set (slice0 (svg_entries g) cap).
            barPct (svg_question_count e) (maxQ (slice0 (svg_entries g) cap)) =
              spec_barWidthPct (svg_question_count (hd (slice0 (svg_entries g) cap)))
                (svg_question_count e)) \<and>
         concat (map bar_width (snd (render_group cap n (y, ps) (gi, g)))) =
           concat (map bar_width ps)
           @ map (\<lambda>e. js_round (of_int (contentW - 80)
                         * (spec_barWidthPct (svg_question_count (hd (slice0 (svg_entries g) cap)))
                              (svg_question_count e) / 100)))
               (slice0 (svg_entries g) cap)"
proof (intro conjI)
  let ?de = "slice0 (svg_entries g) cap"
  show "maxQ ?de \<noteq> 0" by (rule maxQ_nonzero)
  show pct: "\<forall>e\<in>set ?de. barPct (svg_question_count e) (maxQ ?de) =
              spec_barWidthPct (svg_question_count (hd ?de)) (svg_question_count e)"
    using barPct_spec[OF assms] by blast
  have "concat (map bar_width (snd (render_group cap n (y, ps) (gi, g)))) =
        concat (map bar_width ps)
        @ map (\<lambda>e. js_round (of_int (contentW - 80)
                      * (barPct (svg_question_count e) (maxQ ?de) / 100))) ?de"
    by (simp add: render_group_parts group_parts_def bar_width_rows)
  also have "map (\<lambda>e. js_round (of_int (contentW - 80)
                      * (barPct (svg_question_count e) (maxQ ?de) / 100))) ?de =
             map (\<lambda>e. js_round (of_int (contentW - 80)
                         * (spec_barWidthPct (svg_question_count (hd ?de))
                              (svg_question_count e) / 100))) ?de"
    using pct by (intro map_cong) simp_all
  finally show "concat (map bar_width (snd (render_group cap n (y, ps) (gi, g)))) =
           concat (map bar_width ps)
           @ map (\<lambda>e. js_round (of_int (contentW - 80)
                         * (spec_barWidthPct (svg_question_count (hd ?de))
                              (svg_question_count e) / 100))) ?de" .
qed

text \<open>
  A block ranked 6, 3, 0 has the percentages 100, 50 and 8; a block whose counts
  are all 0 divides by 1 and has the percentage 8 throughout.
\<close>

theorem degenerate_bar_widths_witness:
  "sorted_wrt (\<lambda>a b. svg_question_count b \<le> svg_question_count a)
     (slice0 (svg_entries ranked_group) 5) \<and>
   map (\<lambda>e. barPct (svg_question_count e) (maxQ (slice0 (svg_entries ranked_group) 5)))
     (slice0 (svg_entries ranked_group) 5) = [100, 50, 8] \<and>
   sorted_wrt (\<lambda>a b. svg_question_count b \<le> svg_question_count a)
     (slice0 (svg_entries zero_group) 5) \<and>
   maxQ (slice0 (svg_entries zero_group) 5) = 1 \<and>
   map (\<lambda>e. barPct (svg_question_count e) (maxQ (slice0 (svg_entries zero_group) 5)))
     (slice0 (svg_entries zero_group) 5) = [8, 8]"
proof -
  have r: "sorted_wrt (\<lambda>a b. svg_question_count b \<le> svg_question_count a)
     (slice0 (svg_entries ranked_group) 5)"
    by (simp add: ranked_group_def slice0_def)
  have z: "sorted_wrt (\<lambda>a b. svg_question_count b \<le> svg_question_count a)
     (slice0 (svg_entries zero_group) 5)"
    by (simp add: zero_group_def slice0_def)
  have mz: "maxQ (slice0 (svg_entries zero_group) 5) = 1"
    by (simp add: zero_group_def slice0_def maxQ_def)
  from degenerate_bar_widths[OF r, of 1 180 "[]" 0]
  have "map (\<lambda>e. barPct (svg_question_count e) (maxQ (slice0 (svg_entries ranked_group) 5)))
     (slice0 (svg_entries ranked_group) 5) =
        map (\<lambda>e. spec_barWidthPct (svg_question_count (hd (slice0 (svg_entries ranked_group) 5)))
                (svg_question_count e)) (slice0 (svg_entries ranked_group) 5)"
    by (intro map_cong) simp_all
  also have "\<dots> = [100, 50, 8]"
    by (simp add: ranked_group_def slice0_def spec_barWidthPct_def)
  finally have 1: "map (\<lambda>e. barPct (svg_question_count e) (maxQ (slice0 (svg_entries ranked_group) 5)))
     (slice0 (svg_entries ranked_group) 5) = [100, 50, 8]" .
  from degenerate_bar_widths[OF z, of 1 180 "[]" 0]
  have "map (\<lambda>e. barPct (svg_question_count e) (maxQ (slice0 (svg_entries zero_group) 5)))
     (slice0 (svg_entries zero_group) 5) =
        map (\<lambda>e. spec_barWidthPct (svg_question_count (hd (slice0 (svg_entries zero_group) 5)))
                (svg_question_count e)) (slice0 (svg_entries zero_group) 5)"
    by (intro map_cong) simp_all
  also have "\<dots> = [8, 8]"
    by (simp add: zero_group_def slice0_def spec_barWidthPct_def)
  finally have 2: "map (\<lambda>e. barPct (svg_question_count e) (maxQ (slice0 (svg_entries zero_group) 5)))
     (slice0 (svg_entries zero_group) 5) = [8, 8]" .
  from r z mz 1 2 show ?thesis by blast
qed

section \<open>Truncation of the course labels\<close>

text \<open>
  Claim C9. The label of every course row of the document is the escaped form of
  \<open>truncateText t 50\<close> for its topic \<open>t\<close>, from which a reader of the document recovers
  \<open>truncateText t 50\<close> itself. That text is \<open>t\<close> unchanged when \<open>t\<close> has at most 50
  characters; otherwise it is the first 49 characters of \<open>t\<close>, a proper prefix of \<open>t\<close>,
  followed by the ellipsis character; and it never has more than 50 characters.
\<close>

theorem label_truncation:
  "concat (map course_label (doc_body (generateTendanceSVG opts))) =
     concat (map (\<lambda>g. map (\<lambda>e. esc (truncateText (svg_cours_topic e) 50))
                         (slice0 (svg_entries g) (effectiveMax (subDiscGroups opts))))
                 (subDiscGroups opts)) \<and>
   unesc (esc (truncateText t 50)) = Some (truncateText t 50) \<and>
   (length t \<le> 50 \<longrightarrow> truncateText t 50 = t) \<and>
   (50 < length t \<longrightarrow>
      truncateText t 50 = take 49 t @ [ELLIPSIS] \<and> strict_prefix (take 49 t) t) \<and>
   length (truncateText t 50) \<le> 50"
  using truncateText_short[of t] truncateText_long(1,2)[of t] truncateText_budget[of t]
  by (simp add: doc_body_parts course_label_groups unesc_esc)

text \<open>
  A label of 5 characters is kept; a label of 63 characters keeps its first 49 and
  gains the ellipsis.
\<close>

theorem label_truncation_witness:
  "length (js ''Coeur'') \<le> 50 \<and> truncateText (js ''Coeur'') 50 = js ''Coeur'' \<and>
   50 < length long_topic \<and>
   truncateText long_topic 50 = js ''Vascularisation'' @ replicate 34 0x2D @ [ELLIPSIS] \<and>
   strict_prefix (take 49 long_topic) long_topic"
proof -
  have s: "length (js ''Coeur'') \<le> 50" by (simp add: js_def)
  have l: "50 < length long_topic" by (simp add: long_topic_def js_def)
  have t: "take 49 long_topic = js ''Vascularisation'' @ replicate 34 0x2D"
    by (simp add: long_topic_def js_def)
  from label_truncation[of _ "js ''Coeur''"] label_truncation[of _ long_topic] s l t
  show ?thesis by simp
qed

section \<open>The order of the aggregation, and escaping after truncation\<close>

text \<open>
  Claim C10 says (i) that the output of the aggregation is always sorted by module
  name, then by sub-discipline name, then by descending question count, entries equal
  on the three in the order of the first occurrence of their triple, and (ii) that the
  generator escapes the label after truncating it. (i) The comparator of
  \<open>filteredData\<close> tests the names with \<open>!==\<close> and orders them with \<open>localeCompare\<close>,
  which returns 0 for the two spellings of one name. On \<open>accented_records\<close> the two
  spellings of the module name are different strings that compare as equal, the
  comparator returns 0 for either entry of the first spelling against the entry of the
  second, and the output keeps the order in which the entries were met: the course with
  1 question stands before the course with 9 questions of the same module and
  sub-discipline. (By \<open>aggregation_order_when_names_are_told_apart\<close> above, (i) holds
  whenever \<open>localeCompare\<close> tells the names of the filtered records apart.) (ii) holds:
  the label of every course row of the document is \<open>esc\<close> applied to the truncated
  topic, it consists of the entities of the characters of \<open>truncateText t 50\<close>, whole
  and in order, the budget of 50 counts the characters before escaping, and a reader
  of the document recovers the truncated text.
\<close>

theorem aggregation_order_broken_by_equivalent_names:
  "cafe_composed \<noteq> cafe_decomposed \<and>
   canonical_compare cafe_composed cafe_decomposed = 0 \<and>
   canonical_compare cafe_decomposed cafe_composed = 0 \<and>
   filteredData canonical_compare accented_records [] [] =
     [accented_entry cafe_composed ''Anatomie'' ''A'' 1,
      accented_entry cafe_decomposed ''Histologie'' ''B'' 5,
      accented_entry cafe_composed ''Anatomie'' ''C'' 9] \<and>
   concat (map course_label (doc_body (generateTendanceSVG opts))) =
     concat (map (\<lambda>g. map (\<lambda>e. esc (truncateText (svg_cours_topic e) 50))
                         (slice0 (svg_entries g) (effectiveMax (subDiscGroups opts))))
                 (subDiscGroups opts)) \<and>
   esc (truncateText t 50) = concat (map esc_char (truncateText t 50)) \<and>
   length (truncateText t 50) \<le> 50 \<and>
   unesc (esc (truncateText t 50)) = Some (truncateText t 50)"
proof -
  have "cafe_composed \<noteq> cafe_decomposed \<and>
   canonical_compare cafe_composed cafe_decomposed = 0 \<and>
   canonical_compare cafe_decomposed cafe_composed = 0 \<and>
   filteredData canonical_compare accented_records [] [] =
     [accented_entry cafe_composed ''Anatomie'' ''A'' 1,
      accented_entry cafe_decomposed ''Histologie'' ''B'' 5,
      accented_entry cafe_composed ''Anatomie'' ''C'' 9]"
    by (simp add: filteredData_def matches_def aggregate_def agg_step_def agg_key_def
        accented_records_def accented_entry_def cafe_composed_def cafe_decomposed_def
        canonical_compare_def js_def alist_update_def set_add_def toCoursEntry_def js_sort_def
        Let_def compareCours_def)
  then show ?thesis
    using truncateText_budget[of t]
    by (simp add: doc_body_parts course_label_groups unesc_esc esc_concat[symmetric])
qed


end
